theory Spec2Isabelle
  imports Complex_Main "HOL-Library.Word"
begin

section \<open>Strings\<close>

text \<open>
  Transcripts and scripts are JavaScript strings. They are modelled as \<open>string\<close> (a list of
  8-bit characters), so the model covers the ASCII range of the regular-expression classes
  the code uses: \<open>\s\<close> is space, tab, line feed, vertical tab, form feed and carriage
  return; \<open>\w\<close> is a letter, a digit or the underscore.
\<close>

definition is_space :: "char \<Rightarrow> bool" where
  "is_space c = (c = CHR '' '' \<or> c = CHR 0x09 \<or> c = CHR 0x0A \<or> c = CHR 0x0B
                 \<or> c = CHR 0x0C \<or> c = CHR 0x0D)"

definition is_upper :: "char \<Rightarrow> bool" where
  "is_upper c = (65 \<le> (of_char c :: nat) \<and> (of_char c :: nat) \<le> 90)"

definition is_lower :: "char \<Rightarrow> bool" where
  "is_lower c = (97 \<le> (of_char c :: nat) \<and> (of_char c :: nat) \<le> 122)"

definition is_digit :: "char \<Rightarrow> bool" where
  "is_digit c = (48 \<le> (of_char c :: nat) \<and> (of_char c :: nat) \<le> 57)"

text \<open>\<open>\w\<close>: \<open>[A-Za-z0-9_]\<close>.\<close>

definition is_word_char :: "char \<Rightarrow> bool" where
  "is_word_char c = (is_upper c \<or> is_lower c \<or> is_digit c \<or> c = CHR ''_'')"

text \<open>\<open>String.prototype.toLowerCase\<close> on ASCII.\<close>

definition lower_char :: "char \<Rightarrow> char" where
  "lower_char c = (if is_upper c then char_of ((of_char c :: nat) + 32) else c)"

definition toLowerCase :: "string \<Rightarrow> string" where
  "toLowerCase s = map lower_char s"

text \<open>\<open>s.replace(/[^\w\s]|_/g, "")\<close>: drops every character that is neither a word
  character nor white space, and every underscore.\<close>

definition strip_punct :: "string \<Rightarrow> string" where
  "strip_punct s = filter (\<lambda>c. \<not> ((\<not> is_word_char c \<and> \<not> is_space c) \<or> c = CHR ''_'')) s"

text \<open>\<open>s.split(/\s+/)\<close>: the pieces between maximal runs of white space. A string that
  starts or ends with white space yields an empty first or last piece, and the empty string
  yields one empty piece.\<close>

fun split_ws :: "string \<Rightarrow> string list" where
  "split_ws [] = [[]]"
| "split_ws (c # cs) =
     (if is_space c then
        (if cs \<noteq> [] \<and> is_space (hd cs) then split_ws cs else [] # split_ws cs)
      else (case split_ws cs of
              [] \<Rightarrow> [[c]]
            | w # ws \<Rightarrow> (c # w) # ws))"

text \<open>\<open>String.prototype.trim\<close>.\<close>

definition trim :: "string \<Rightarrow> string" where
  "trim s = rev (dropWhile is_space (rev (dropWhile is_space s)))"

section \<open>Script model\<close>

record WordItem =
  word :: string
  cleanWord :: string
  index :: nat

text \<open>The \<open>words\<close> memo of the Teleprompter component:
  \<^verbatim>\<open>script.split(/\s+/).map((word, index) => ({word, cleanWord: ..., index}))
        .filter(w => w.word.trim() !== "")\<close>.\<close>

definition mk_items :: "nat \<Rightarrow> string list \<Rightarrow> WordItem list" where
  "mk_items k ws =
     map (\<lambda>(i, w). \<lparr>word = w, cleanWord = strip_punct (toLowerCase w), index = i\<rparr>)
       (zip [k ..< k + length ws] ws)"

definition script_words :: "string \<Rightarrow> WordItem list" where
  "script_words script = filter (\<lambda>w. trim (word w) \<noteq> []) (mk_items 0 (split_ws script))"

text \<open>The transcript's word list of the tracking effect:
  \<^verbatim>\<open>transcript.toLowerCase().replace(/[^\w\s]|_/g, "").split(/\s+/).filter(w => w !== "")\<close>.\<close>

definition transcript_words :: "string \<Rightarrow> string list" where
  "transcript_words transcript =
     filter (\<lambda>w. w \<noteq> []) (split_ws (strip_punct (toLowerCase transcript)))"

section \<open>Position tracker\<close>

text \<open>
  The tracking effect of the five-mode Teleprompter component. \<open>activeIndex\<close> is a
  JavaScript number, modelled as \<open>int\<close>. Reading \<open>words[i].cleanWord\<close> at an index
  outside the array raises a \<open>TypeError\<close> (\<open>words[i]\<close> is \<open>undefined\<close>).
\<close>

datatype error = TypeError | InvalidStateError

definition word_at :: "WordItem list \<Rightarrow> int \<Rightarrow> error + string" where
  "word_at words i =
     (if 0 \<le> i \<and> i < int (length words) then Inr (cleanWord (words ! nat i))
      else Inl TypeError)"

text \<open>The last, second-last and third-last spoken words; \<open>None\<close> is JavaScript's
  \<open>null\<close>. The list is not empty where the effect reads them.\<close>

definition lastWord :: "string list \<Rightarrow> string" where
  "lastWord tw = tw ! (length tw - 1)"

definition secondLastWord :: "string list \<Rightarrow> string option" where
  "secondLastWord tw = (if length tw > 1 then Some (tw ! (length tw - 2)) else None)"

definition thirdLastWord :: "string list \<Rightarrow> string option" where
  "thirdLastWord tw = (if length tw > 2 then Some (tw ! (length tw - 3)) else None)"

text \<open>A JavaScript string or \<open>null\<close> used as a condition: true when it is a non-empty
  string.\<close>

definition truthy :: "string option \<Rightarrow> bool" where
  "truthy w = (case w of None \<Rightarrow> False | Some s \<Rightarrow> s \<noteq> [])"

text \<open>\<open>matchCount\<close>: how many consecutive words match, looking backwards from \<open>i\<close>.
  It is computed only where \<open>words[i]\<close> exists, and the guards \<open>i > 0\<close> and \<open>i > 1\<close>
  keep the reads of \<open>words[i - 1]\<close> and \<open>words[i - 2]\<close> inside the array.\<close>

definition matchCount :: "WordItem list \<Rightarrow> string option \<Rightarrow> string option \<Rightarrow> int \<Rightarrow> nat" where
  "matchCount words second third i =
     (if truthy second \<and> i > 0 \<and> Some (cleanWord (words ! nat (i - 1))) = second then
        (if truthy third \<and> i > 1 \<and> Some (cleanWord (words ! nat (i - 2))) = third then 3
         else 2)
      else 1)"

definition requiredMatches :: "int \<Rightarrow> nat" where
  "requiredMatches distance =
     (if distance \<ge> 2 \<and> distance \<le> 10 then 2
      else if distance > 10 then 3
      else 1)"

text \<open>The \<open>for\<close> loop of the effect. \<open>Inr (Some j)\<close>: \<open>setActiveIndex(j)\<close> was called and
  the effect returned; \<open>Inr None\<close>: the loop ended without a call.\<close>

function scan :: "WordItem list \<Rightarrow> string \<Rightarrow> string option \<Rightarrow> string option \<Rightarrow> int \<Rightarrow> int \<Rightarrow> int
    \<Rightarrow> error + int option" where
  "scan words lw second third activeIndex searchEndIndex i =
     (if i < searchEndIndex then
        (case word_at words i of
           Inl e \<Rightarrow> Inl e
         | Inr scriptWord \<Rightarrow>
             if scriptWord = lw
                \<and> matchCount words second third i \<ge> requiredMatches (i - activeIndex)
             then Inr (Some (i + 1))
             else scan words lw second third activeIndex searchEndIndex (i + 1))
      else Inr None)"
  by pat_completeness auto
termination
  by (relation "measure (\<lambda>(words, lw, second, third, activeIndex, searchEndIndex, i).
                  nat (searchEndIndex - i))") auto

definition searchWindow :: int where
  "searchWindow = 20"

text \<open>One run of the tracking effect: the call of \<open>setActiveIndex\<close> it makes, if any.\<close>

definition track :: "WordItem list \<Rightarrow> string \<Rightarrow> int \<Rightarrow> error + int option" where
  "track words transcript activeIndex =
     (if transcript = [] then Inr None
      else let transcriptWords = transcript_words transcript in
        if length transcriptWords = 0 then Inr None
        else scan words (lastWord transcriptWords) (secondLastWord transcriptWords)
               (thirdLastWord transcriptWords) activeIndex
               (min (activeIndex + searchWindow) (int (length words))) activeIndex)"

text \<open>The cursor after one run of the effect.\<close>

definition tracker_update :: "WordItem list \<Rightarrow> string \<Rightarrow> int \<Rightarrow> error + int" where
  "tracker_update words transcript activeIndex =
     (case track words transcript activeIndex of
        Inl e \<Rightarrow> Inl e
      | Inr None \<Rightarrow> Inr activeIndex
      | Inr (Some j) \<Rightarrow> Inr j)"

declare scan.simps [simp del]

subsection \<open>The live-only Teleprompter variant\<close>

text \<open>
  The tracking effect of the Teleprompter component that drives the live mode only. It
  reads the last two spoken words and accepts a candidate when the second-last word matches
  the preceding script word, or when \<open>activeIndex\<close> is 0.
\<close>

function scan_live_only :: "WordItem list \<Rightarrow> string \<Rightarrow> string option \<Rightarrow> int \<Rightarrow> int \<Rightarrow> int
    \<Rightarrow> error + int option" where
  "scan_live_only words lw second activeIndex searchEndIndex i =
     (if i < searchEndIndex then
        (case word_at words i of
           Inl e \<Rightarrow> Inl e
         | Inr scriptWord \<Rightarrow>
             if scriptWord = lw then
               (if truthy second \<and> i > 0 \<and> Some (cleanWord (words ! nat (i - 1))) = second
                then Inr (Some (i + 1))
                else if activeIndex = 0 then Inr (Some (i + 1))
                else scan_live_only words lw second activeIndex searchEndIndex (i + 1))
             else scan_live_only words lw second activeIndex searchEndIndex (i + 1))
      else Inr None)"
  by pat_completeness auto
termination
  by (relation "measure (\<lambda>(words, lw, second, activeIndex, searchEndIndex, i).
                  nat (searchEndIndex - i))") auto

declare scan_live_only.simps [simp del]

definition track_live_only :: "WordItem list \<Rightarrow> string \<Rightarrow> int \<Rightarrow> error + int option" where
  "track_live_only words transcript activeIndex =
     (if transcript = [] then Inr None
      else let transcriptWords = transcript_words transcript in
        if length transcriptWords = 0 then Inr None
        else scan_live_only words (lastWord transcriptWords) (secondLastWord transcriptWords)
               activeIndex (min (activeIndex + searchWindow) (int (length words))) activeIndex)"

definition tracker_update_live_only :: "WordItem list \<Rightarrow> string \<Rightarrow> int \<Rightarrow> error + int" where
  "tracker_update_live_only words transcript activeIndex =
     (case track_live_only words transcript activeIndex of
        Inl e \<Rightarrow> Inl e
      | Inr None \<Rightarrow> Inr activeIndex
      | Inr (Some j) \<Rightarrow> Inr j)"

subsection \<open>Sequences of transcript updates\<close>

text \<open>The effect runs once for every transcript the recognizer delivers (and again when
  \<open>activeIndex\<close> changes, with the same transcript). A run that raises ends the sequence.\<close>

fun run_updates :: "WordItem list \<Rightarrow> string list \<Rightarrow> int \<Rightarrow> error + int" where
  "run_updates words [] activeIndex = Inr activeIndex"
| "run_updates words (t # ts) activeIndex =
     (case tracker_update words t activeIndex of
        Inl e \<Rightarrow> Inl e
      | Inr a \<Rightarrow> run_updates words ts a)"

fun run_updates_live_only :: "WordItem list \<Rightarrow> string list \<Rightarrow> int \<Rightarrow> error + int" where
  "run_updates_live_only words [] activeIndex = Inr activeIndex"
| "run_updates_live_only words (t # ts) activeIndex =
     (case tracker_update_live_only words t activeIndex of
        Inl e \<Rightarrow> Inl e
      | Inr a \<Rightarrow> run_updates_live_only words ts a)"

subsection \<open>Manual navigation and restart\<close>

datatype key = ArrowRight | ArrowDown | ArrowLeft | ArrowUp | Space | Enter | OtherKey

text \<open>The events that write \<open>activeIndex\<close>: a transcript update (the tracking effect), a
  click on the rendered word \<open>i\<close>, a key press, and the restart button.\<close>

datatype event = TranscriptUpdate string | Click nat | KeyDown key | Restart

text \<open>\<open>handleKeyDown\<close>. With a PDF attached the arrow keys turn slides and leave the cursor
  alone; the space bar toggles listening.\<close>

definition handleKeyDown :: "nat \<Rightarrow> bool \<Rightarrow> key \<Rightarrow> int \<Rightarrow> int" where
  "handleKeyDown len pdfFile k prev =
     (if pdfFile then prev
      else if k = ArrowRight \<or> k = ArrowDown then min (prev + 1) (int len - 1)
      else if k = ArrowLeft \<or> k = ArrowUp then max (prev - 1) 0
      else prev)"

definition step :: "WordItem list \<Rightarrow> bool \<Rightarrow> event \<Rightarrow> int \<Rightarrow> error + int" where
  "step words pdfFile e activeIndex =
     (case e of
        TranscriptUpdate t \<Rightarrow> tracker_update words t activeIndex
      | Click i \<Rightarrow> Inr (int i)
      | KeyDown k \<Rightarrow> Inr (handleKeyDown (length words) pdfFile k activeIndex)
      | Restart \<Rightarrow> Inr 0)"

text \<open>A word is rendered, and can be clicked, for every index of \<open>words\<close> and no other.\<close>

definition enabled :: "WordItem list \<Rightarrow> event \<Rightarrow> bool" where
  "enabled words e = (case e of Click i \<Rightarrow> i < length words | _ \<Rightarrow> True)"

fun run_events :: "WordItem list \<Rightarrow> bool \<Rightarrow> event list \<Rightarrow> int \<Rightarrow> error + int" where
  "run_events words pdfFile [] activeIndex = Inr activeIndex"
| "run_events words pdfFile (e # es) activeIndex =
     (case step words pdfFile e activeIndex of
        Inl err \<Rightarrow> Inl err
      | Inr a \<Rightarrow> run_events words pdfFile es a)"

section \<open>Transcript segmenter\<close>

text \<open>
  The refs of the \<open>useTextTranslation\<close> hook that the segmenter reads and writes, and the
  \<open>sourceText\<close> state. Times are \<open>Date.now()\<close> readings in milliseconds.
  \<open>recognitionStarts\<close> counts the calls of \<open>startRecognition\<close> made by the health
  check.
\<close>

record segmenter =
  lastProcessed :: string
  lastProcessedTime :: int
  lastActivityTime :: int
  isTranslating :: bool
  fullTranscript :: string
  isActiveRef :: bool
  useExternalTranscript :: bool
  sourceText :: string
  ttsQueue :: "string list"
  recognitionStarts :: nat

text \<open>What a call did about translation. \<open>NoCall\<close>: \<open>translateText\<close> was not called.
  \<open>Dropped text\<close>: \<open>translateText(text)\<close> was called and returned before sending
  anything. \<open>Started text\<close>: the call marked itself in flight and sent \<open>text\<close> to the
  model.\<close>

datatype outcome = NoCall | Dropped string | Started string

text \<open>\<open>translateText\<close> up to the request: the blank check, the stuck check and the
  three assignments before the \<open>await\<close>. One clock reading stands for the \<open>Date.now()\<close>
  calls of this synchronous stretch.\<close>

definition stuckThreshold :: int where
  "stuckThreshold = 10000"

definition begin_request :: "int \<Rightarrow> string \<Rightarrow> segmenter \<Rightarrow> segmenter \<times> outcome" where
  "begin_request now text st =
     (st\<lparr>isTranslating := True, lastProcessedTime := now, lastActivityTime := now\<rparr>,
      Started text)"

definition translateText :: "int \<Rightarrow> string \<Rightarrow> segmenter \<Rightarrow> segmenter \<times> outcome" where
  "translateText now text st =
     (if trim text = [] then (st, Dropped text)
      else if isTranslating st then
        (let timeSinceActivity = now - lastActivityTime st in
           if timeSinceActivity > stuckThreshold
           then begin_request now text (st\<lparr>isTranslating := False\<rparr>)
           else (st, Dropped text))
      else begin_request now text st)"

text \<open>The \<open>finally\<close> block of \<open>translateText\<close>, run when the request ends.\<close>

definition request_finished :: "int \<Rightarrow> segmenter \<Rightarrow> segmenter" where
  "request_finished now st = st\<lparr>isTranslating := False, lastActivityTime := now\<rparr>"

text \<open>\<open>s.startsWith(p)\<close> and the new content of \<open>processTranscript\<close>.\<close>

definition startsWith :: "string \<Rightarrow> string \<Rightarrow> bool" where
  "startsWith s p = (take (length p) s = p)"

definition newContent :: "string \<Rightarrow> string \<Rightarrow> string" where
  "newContent lastProcessedText transcript =
     (if length transcript < length lastProcessedText
         \<or> \<not> startsWith transcript
               (take (min 50 (length lastProcessedText)) lastProcessedText)
      then trim transcript
      else trim (drop (length lastProcessedText) transcript))"

text \<open>\<open>/[.!?,;:]/.test(s)\<close> and \<open>s.split(/\s+/).length\<close>.\<close>

definition hasCompleteSentence :: "string \<Rightarrow> bool" where
  "hasCompleteSentence s = list_ex (\<lambda>c. c \<in> set ''.!?,;:'') s"

definition wordCount :: "string \<Rightarrow> nat" where
  "wordCount s = length (split_ws s)"

definition processTranscript :: "int \<Rightarrow> string \<Rightarrow> segmenter \<Rightarrow> segmenter \<times> outcome" where
  "processTranscript now transcript st =
     (if transcript = [] then (st, NoCall)
      else let st1 = st\<lparr>fullTranscript := transcript, sourceText := transcript\<rparr> in
        if transcript = lastProcessed st1 then (st1, NoCall)
        else let content = newContent (lastProcessed st1) transcript in
          if content = [] then (st1, NoCall)
          else if hasCompleteSentence content \<or> wordCount content \<ge> 5
          then translateText now content (st1\<lparr>lastProcessed := transcript\<rparr>)
          else (st1, NoCall))"

definition feedTranscript :: "int \<Rightarrow> string \<Rightarrow> segmenter \<Rightarrow> segmenter \<times> outcome" where
  "feedTranscript now transcript st =
     (if \<not> isActiveRef st \<or> \<not> useExternalTranscript st then (st, NoCall)
      else processTranscript now transcript (st\<lparr>lastActivityTime := now\<rparr>))"

text \<open>The body of the interval callback, which \<open>setInterval\<close> runs every 500 ms while the
  hook is active: the time-based trigger, then the health check.\<close>

definition time_trigger :: "int \<Rightarrow> segmenter \<Rightarrow> segmenter \<times> outcome" where
  "time_trigger now st =
     (let timeSinceLastTranslation = now - lastProcessedTime st;
          full = fullTranscript st;
          lp = lastProcessed st in
        if timeSinceLastTranslation \<ge> 2000 \<and> length full > length lp then
          (let content = trim (drop (length lp) full) in
             if content \<noteq> [] \<and> wordCount content \<ge> 2
             then translateText now content (st\<lparr>lastProcessed := full\<rparr>)
             else (st, NoCall))
        else (st, NoCall))"

definition health_check :: "int \<Rightarrow> segmenter \<Rightarrow> segmenter" where
  "health_check now st =
     (if now - lastActivityTime st > 30000 \<and> isActiveRef st
      then st\<lparr>recognitionStarts := recognitionStarts st + 1, lastActivityTime := now\<rparr>
      else st)"

definition interval_tick :: "int \<Rightarrow> segmenter \<Rightarrow> segmenter \<times> outcome" where
  "interval_tick now st =
     (let (st1, out) = time_trigger now st in (health_check now st1, out))"

text \<open>The refs as \<open>start\<close> leaves them.\<close>

definition started :: "int \<Rightarrow> bool \<Rightarrow> segmenter" where
  "started now external =
     \<lparr>lastProcessed = [], lastProcessedTime = now, lastActivityTime = now,
      isTranslating = False, fullTranscript = [], isActiveRef = True,
      useExternalTranscript = external, sourceText = [], ttsQueue = [],
      recognitionStarts = 0\<rparr>"

text \<open>The number of white-space-delimited words of a string: its maximal runs of
  characters that are not white space.\<close>

fun count_words :: "string \<Rightarrow> nat" where
  "count_words [] = 0"
| "count_words (c # cs) =
     (if \<not> is_space c \<and> (cs = [] \<or> is_space (hd cs)) then 1 else 0) + count_words cs"

section \<open>Playback queue\<close>

text \<open>
  The scheduled-ahead playback of the streaming hooks. Times are seconds on the clock of
  the playback \<open>AudioContext\<close>; they are modelled as real numbers, so the rounding of
  floating-point addition is left out. \<open>playbackContext\<close> tells whether
  \<open>playbackContextRef\<close> holds a context.
\<close>

record playback =
  playbackContext :: bool
  nextPlayTime :: real

text \<open>\<open>nextPlayTimeRef\<close> starts at 0 and \<open>playbackContextRef\<close> at \<open>null\<close>.\<close>

definition playback_init :: playback where
  "playback_init = \<lparr>playbackContext = False, nextPlayTime = 0\<rparr>"

text \<open>\<open>playAudioChunk\<close> of \<open>usePersonaPlex\<close> and \<open>useGeminiLive\<close>, for a chunk of
  the given duration arriving when the context's clock reads \<open>currentTime\<close>. It returns
  the time passed to \<open>source.start\<close>.\<close>

definition playAudioChunk :: "real \<Rightarrow> real \<Rightarrow> 'a playback_scheme \<Rightarrow> 'a playback_scheme \<times> real" where
  "playAudioChunk currentTime duration st =
     (let startTime = max currentTime (nextPlayTime st) in
        (st\<lparr>playbackContext := True, nextPlayTime := startTime + duration\<rparr>, startTime))"

text \<open>Chunks played one after the other, each given as its arrival time and its duration;
  the result lists the start times in the order of the calls.\<close>

fun enqueue_all :: "(real \<times> real) list \<Rightarrow> 'a playback_scheme \<Rightarrow> 'a playback_scheme \<times> real list" where
  "enqueue_all [] st = (st, [])"
| "enqueue_all ((currentTime, duration) # cs) st =
     (let (st1, startTime) = playAudioChunk currentTime duration st;
          (st2, starts) = enqueue_all cs st1
      in (st2, startTime # starts))"

section \<open>Microphone PCM encoder\<close>










section \<open>Pipeline hooks\<close>

text \<open>
  The lifecycle of the hooks behind the pipeline variants: the refs that hold resources
  (\<open>True\<close> for a ref that holds an object, \<open>False\<close> for \<open>null\<close>) and the status
  flags. Display texts and the \<open>error\<close> slot are left out. The refs of the audio source
  and processor nodes are left out as well: a teardown disconnects the nodes and keeps the
  refs.
\<close>

datatype readyState = CONNECTING | OPEN | CLOSING | CLOSED

datatype asrMode = BrowserAsr | LocalAsr

datatype ttsMode = BrowserVoice | GeminiVoice

text \<open>\<open>WebSocket.send\<close> throws \<open>InvalidStateError\<close> on a socket that is still
  connecting; \<open>WebSocket.close\<close> does not throw.\<close>

definition ws_send :: "readyState \<Rightarrow> error + readyState" where
  "ws_send rs = (if rs = CONNECTING then Inl InvalidStateError else Inr rs)"

definition ws_close :: "readyState \<Rightarrow> readyState" where
  "ws_close rs = (if rs = CLOSED then CLOSED else CLOSING)"

text \<open>\<open>try { ws.send(JSON.stringify({type: 'stop'})); ws.close(); } catch (e) {}\<close>: the
  socket afterwards. When \<open>send\<close> throws, \<open>close\<close> is not reached.\<close>

definition try_catch :: "error + 'a \<Rightarrow> 'a \<Rightarrow> 'a" where
  "try_catch body otherwise = (case body of Inl e \<Rightarrow> otherwise | Inr v \<Rightarrow> v)"

definition send_stop_and_close :: "readyState \<Rightarrow> readyState" where
  "send_stop_and_close rs =
     try_catch (case ws_send rs of Inl e \<Rightarrow> Inl e | Inr rs' \<Rightarrow> Inr (ws_close rs')) rs"

subsection \<open>useLocalPipeline\<close>

text \<open>\<open>pipelineSockets\<close> lists the sockets the hook has created, each with its
  \<open>readyState\<close> and the \<open>asrMode\<close> its \<open>onopen\<close> handler captured;
  \<open>pipelineWsRef\<close> is the position of the socket that \<open>wsRef\<close> holds. A socket that
  \<open>wsRef\<close> no longer holds keeps its handlers.\<close>

record pipeline = playback +
  pipelineSockets :: "(readyState \<times> asrMode) list"
  pipelineWsRef :: "nat option"
  pipelineAudioContextRef :: bool
  pipelineMediaStreamRef :: bool
  pipelineRecognitionRef :: bool
  asrModeRef :: asrMode
  pipelineIsActiveRef :: bool
  activeSourceCount :: int
  isLocalPipelineActive :: bool
  isLocalPipelineSpeaking :: bool
  localPipelineVolume :: real

definition pipeline_init :: pipeline where
  "pipeline_init =
     \<lparr>playbackContext = False, nextPlayTime = 0,
      pipelineSockets = [], pipelineWsRef = None, pipelineAudioContextRef = False,
      pipelineMediaStreamRef = False, pipelineRecognitionRef = False, asrModeRef = LocalAsr,
      pipelineIsActiveRef = False, activeSourceCount = 0, isLocalPipelineActive = False,
      isLocalPipelineSpeaking = False, localPipelineVolume = 0\<rparr>"

definition stopLocalPipeline :: "pipeline \<Rightarrow> pipeline" where
  "stopLocalPipeline st =
     (let st1 = st\<lparr>pipelineIsActiveRef := False\<rparr>;
          st2 = (case pipelineWsRef st1 of
                   None \<Rightarrow> st1
                 | Some k \<Rightarrow>
                     st1\<lparr>pipelineSockets :=
                           (pipelineSockets st1)
                             [k := (send_stop_and_close (fst (pipelineSockets st1 ! k)),
                                    snd (pipelineSockets st1 ! k))],
                         pipelineWsRef := None\<rparr>)
      in st2\<lparr>pipelineRecognitionRef := False,
              pipelineMediaStreamRef := False,
              pipelineAudioContextRef := False,
              playbackContext := False,
              nextPlayTime := 0,
              activeSourceCount := 0,
              isLocalPipelineActive := False,
              isLocalPipelineSpeaking := False,
              localPipelineVolume := 0\<rparr>)"

text \<open>\<open>start\<close>: \<open>startAsync\<close> has no \<open>await\<close>, so the socket is created and stored
  before \<open>start\<close> returns.\<close>

definition startLocalPipeline :: "asrMode \<Rightarrow> pipeline \<Rightarrow> pipeline" where
  "startLocalPipeline m st =
     (let st1 = (if pipelineWsRef st \<noteq> None then stopLocalPipeline st else st) in
        st1\<lparr>isLocalPipelineSpeaking := False, asrModeRef := m,
            pipelineSockets := pipelineSockets st1 @ [(CONNECTING, m)],
            pipelineWsRef := Some (length (pipelineSockets st1))\<rparr>)"

text \<open>The socket at position \<open>k\<close> opens and its \<open>onopen\<close> handler runs, up to the
  first \<open>await\<close>; \<open>None\<close> when there is no such socket or it is not connecting. Browser
  recognition is taken to be available and to start.\<close>

definition pipeline_onopen :: "nat \<Rightarrow> pipeline \<Rightarrow> pipeline option" where
  "pipeline_onopen k st =
     (if k < length (pipelineSockets st) \<and> fst (pipelineSockets st ! k) = CONNECTING then
        (let m = snd (pipelineSockets st ! k);
             st1 = st\<lparr>pipelineSockets := (pipelineSockets st)[k := (OPEN, m)],
                      pipelineIsActiveRef := True, isLocalPipelineActive := True\<rparr>
         in Some (if m = BrowserAsr then st1\<lparr>pipelineRecognitionRef := True\<rparr>
                  else st1\<lparr>pipelineAudioContextRef := True\<rparr>))
      else None)"

subsection \<open>usePersonaPlex\<close>

text \<open>\<open>personaSockets\<close> and \<open>personaWsRef\<close> are as for the local pipeline;
  \<open>personaPendingMedia\<close> counts the calls of \<open>connect\<close> suspended at
  \<open>await getUserMedia\<close>.\<close>

record personaplex = playback +
  personaSockets :: "readyState list"
  personaWsRef :: "nat option"
  personaAudioContextRef :: bool
  personaMediaStreamRef :: bool
  personaPendingMedia :: nat
  isPersonaPlexConnected :: bool
  isPersonaPlexConnecting :: bool
  personaPlexVolume :: real
  personaPlexPlaybackCount :: nat

definition personaplex_init :: personaplex where
  "personaplex_init =
     \<lparr>playbackContext = False, nextPlayTime = 0,
      personaSockets = [], personaWsRef = None, personaAudioContextRef = False,
      personaMediaStreamRef = False, personaPendingMedia = 0,
      isPersonaPlexConnected = False, isPersonaPlexConnecting = False,
      personaPlexVolume = 0, personaPlexPlaybackCount = 0\<rparr>"

definition disconnectPersonaPlex :: "personaplex \<Rightarrow> personaplex" where
  "disconnectPersonaPlex st =
     (let st1 = (case personaWsRef st of
                   None \<Rightarrow> st
                 | Some k \<Rightarrow>
                     st\<lparr>personaSockets :=
                          (personaSockets st)[k := send_stop_and_close (personaSockets st ! k)],
                        personaWsRef := None\<rparr>)
      in st1\<lparr>personaMediaStreamRef := False,
              personaAudioContextRef := False,
              playbackContext := False,
              nextPlayTime := 0,
              isPersonaPlexConnected := False,
              isPersonaPlexConnecting := False,
              personaPlexVolume := 0,
              personaPlexPlaybackCount := 0\<rparr>)"

text \<open>\<open>connect\<close> up to \<open>await navigator.mediaDevices.getUserMedia\<close>.\<close>

definition connectPersonaPlex :: "personaplex \<Rightarrow> personaplex" where
  "connectPersonaPlex st =
     (let st1 = (if personaWsRef st \<noteq> None then disconnectPersonaPlex st else st) in
        st1\<lparr>isPersonaPlexConnecting := True, personaAudioContextRef := True,
            personaPendingMedia := personaPendingMedia st1 + 1\<rparr>)"

subsection \<open>useGeminiLive\<close>

text \<open>\<open>livePendingMedia\<close> lists the calls of \<open>connect\<close> suspended at
  \<open>await getUserMedia\<close>, each with the \<open>quickResponse\<close> option it captured.
  \<open>liveSessions\<close> lists the sessions requested from \<open>ai.live.connect\<close>, each with its
  state and the captured option; \<open>sessionRef\<close> is the position of the session that the ref
  holds. A session that \<open>disconnect\<close> closes runs no callback in this model.\<close>

record live = playback +
  liveSessions :: "(readyState \<times> bool) list"
  sessionRef :: "nat option"
  liveAudioContextRef :: bool
  liveMediaStreamRef :: bool
  nudgeIntervalRef :: bool
  livePendingMedia :: "bool list"
  isLiveConnected :: bool
  isLiveConnecting :: bool
  liveVolume :: real
  liveAudioPlaybackCount :: nat

definition live_init :: live where
  "live_init =
     \<lparr>playbackContext = False, nextPlayTime = 0,
      liveSessions = [], sessionRef = None, liveAudioContextRef = False,
      liveMediaStreamRef = False, nudgeIntervalRef = False, livePendingMedia = [],
      isLiveConnected = False, isLiveConnecting = False, liveVolume = 0,
      liveAudioPlaybackCount = 0\<rparr>"

definition disconnectLive :: "live \<Rightarrow> live" where
  "disconnectLive st =
     (let st1 = st\<lparr>nudgeIntervalRef := False,
                    liveMediaStreamRef := False,
                    liveAudioContextRef := False,
                    playbackContext := False,
                    nextPlayTime := 0\<rparr>;
          st2 = (case sessionRef st1 of
                   None \<Rightarrow> st1
                 | Some k \<Rightarrow>
                     st1\<lparr>liveSessions :=
                           (liveSessions st1)[k := (CLOSED, snd (liveSessions st1 ! k))],
                         sessionRef := None\<rparr>)
      in st2\<lparr>isLiveConnected := False,
              isLiveConnecting := False,
              liveVolume := 0,
              liveAudioPlaybackCount := 0\<rparr>)"

text \<open>\<open>connect\<close> up to \<open>await getUserMedia\<close>; its continuation when the promise
  of the oldest suspended call resolves (\<open>None\<close> when no call is suspended); and the
  \<open>onopen\<close> callback of the session at position \<open>k\<close> (\<open>None\<close> when there is no such
  session or it is not connecting).\<close>

definition connectLive :: "bool \<Rightarrow> live \<Rightarrow> live" where
  "connectLive quick st =
     (let st1 = (if sessionRef st \<noteq> None then disconnectLive st else st) in
        st1\<lparr>isLiveConnecting := True, liveAudioContextRef := True,
            livePendingMedia := livePendingMedia st1 @ [quick]\<rparr>)"

definition connectLive_granted :: "live \<Rightarrow> live option" where
  "connectLive_granted st =
     (case livePendingMedia st of
        [] \<Rightarrow> None
      | quick # rest \<Rightarrow>
          Some (st\<lparr>livePendingMedia := rest, liveMediaStreamRef := True,
                   liveSessions := liveSessions st @ [(CONNECTING, quick)],
                   sessionRef := Some (length (liveSessions st))\<rparr>))"

definition live_onopen :: "nat \<Rightarrow> live \<Rightarrow> live option" where
  "live_onopen k st =
     (if k < length (liveSessions st) \<and> fst (liveSessions st ! k) = CONNECTING then
        (let quick = snd (liveSessions st ! k) in
           Some (st\<lparr>liveSessions := (liveSessions st)[k := (OPEN, quick)],
                    isLiveConnected := True, isLiveConnecting := False,
                    nudgeIntervalRef := (if quick then True else nudgeIntervalRef st)\<rparr>))
      else None)"

subsection \<open>useTextTranslation\<close>

record text_hook =
  refs :: segmenter
  textRecognitionRef :: bool
  isTTSSpeakingRef :: bool
  ttsModeRef :: ttsMode
  isTextActive :: bool
  isTextSpeaking :: bool

definition text_init :: text_hook where
  "text_init =
     \<lparr>refs = \<lparr>lastProcessed = [], lastProcessedTime = 0, lastActivityTime = 0,
              isTranslating = False, fullTranscript = [], isActiveRef = False,
              useExternalTranscript = False, sourceText = [], ttsQueue = [],
              recognitionStarts = 0\<rparr>,
      textRecognitionRef = False, isTTSSpeakingRef = False, ttsModeRef = BrowserVoice,
      isTextActive = False, isTextSpeaking = False\<rparr>"

definition stopTextTranslation :: "text_hook \<Rightarrow> text_hook" where
  "stopTextTranslation st =
     st\<lparr>refs := (refs st)\<lparr>isActiveRef := False, ttsQueue := [], isTranslating := False\<rparr>,
        textRecognitionRef := False,
        isTextActive := False,
        isTTSSpeakingRef := False,
        isTextSpeaking := False\<rparr>"

text \<open>\<open>start\<close> at clock reading \<open>now\<close>. Internal recognition starts when the transcript
  is not fed from outside; it is taken to be available and to start.\<close>

definition startTextTranslation :: "int \<Rightarrow> bool \<Rightarrow> ttsMode \<Rightarrow> text_hook \<Rightarrow> text_hook" where
  "startTextTranslation now external voice st =
     st\<lparr>refs := started now external,
        textRecognitionRef := \<not> external,
        isTTSSpeakingRef := False,
        ttsModeRef := voice,
        isTextActive := True\<rparr>"

subsection \<open>The text hook over time\<close>

text \<open>
  The hook together with what the browser holds for it: the number of translation requests
  that have been sent and whose promise has not settled, the time at which the interval
  callback runs next (\<open>None\<close> while no interval is set), and the time of the last event.
  \<open>calls\<close> lists the calls of \<open>translateText\<close> made so far, each with its clock
  reading.
\<close>

record hook_state =
  hookOf :: text_hook
  pendingRequests :: nat
  nextTick :: "int option"
  lastEvent :: int
  calls :: "(int \<times> outcome) list"

definition hook_init :: hook_state where
  "hook_init =
     \<lparr>hookOf = text_init, pendingRequests = 0, nextTick = None, lastEvent = 0, calls = []\<rparr>"

text \<open>A call of \<open>translateText\<close> is added to the list; one that sent a request adds a
  pending request.\<close>

definition record_call :: "int \<Rightarrow> outcome \<Rightarrow> hook_state \<Rightarrow> hook_state" where
  "record_call now out st =
     (case out of
        NoCall \<Rightarrow> st
      | Dropped text \<Rightarrow> st\<lparr>calls := calls st @ [(now, out)]\<rparr>
      | Started text \<Rightarrow>
          st\<lparr>calls := calls st @ [(now, out)], pendingRequests := pendingRequests st + 1\<rparr>)"

text \<open>\<open>setInterval(..., 500)\<close>: the callbacks due at \<open>t\<close>, \<open>t + 500\<close>, ... up to
  \<open>now\<close> run in turn, each with its own time as the reading of \<open>Date.now()\<close>.\<close>

function ticks_until :: "int \<Rightarrow> int \<Rightarrow> hook_state \<Rightarrow> hook_state" where
  "ticks_until now t st =
     (if t \<le> now then
        ticks_until now (t + 500)
          (record_call t (snd (interval_tick t (refs (hookOf st))))
             (st\<lparr>hookOf := (hookOf st)\<lparr>refs := fst (interval_tick t (refs (hookOf st)))\<rparr>,
                 nextTick := Some (t + 500)\<rparr>))
      else st)"
  by pat_completeness auto
termination
  by (relation "measure (\<lambda>(now, t, st). nat (now - t + 1))") auto

definition advance :: "int \<Rightarrow> hook_state \<Rightarrow> hook_state" where
  "advance now st =
     (case nextTick st of
        None \<Rightarrow> st
      | Some t \<Rightarrow> ticks_until now t st)\<lparr>lastEvent := now\<rparr>"

text \<open>
  What happens to the hook. \<open>StartHook\<close> and \<open>StopHook\<close> are the calls of \<open>start\<close> and
  \<open>stop\<close> by the component; the interval effect sets the interval when \<open>isActive\<close>
  becomes true and clears it when it becomes false. \<open>FeedTranscript\<close> is a call of
  \<open>feedTranscript\<close>, \<open>RecognitionResult\<close> the \<open>onresult\<close> callback of the hook's own
  recognition with the concatenated transcript of the event. \<open>ChunkArrived\<close> is one round
  of the \<open>for await\<close> loop of a pending request and \<open>RequestEnded\<close> its \<open>finally\<close>
  block. \<open>TimeIs\<close> lets time pass. Every event carries its clock reading; the interval
  callbacks that are due run before it. \<open>None\<close>: the event cannot happen in that state.
\<close>

datatype hook_event =
    StartHook int bool ttsMode
  | StopHook int
  | FeedTranscript int string
  | RecognitionResult int string
  | ChunkArrived int
  | RequestEnded int
  | TimeIs int

fun time_of :: "hook_event \<Rightarrow> int" where
  "time_of (StartHook now external voice) = now"
| "time_of (StopHook now) = now"
| "time_of (FeedTranscript now transcript) = now"
| "time_of (RecognitionResult now transcript) = now"
| "time_of (ChunkArrived now) = now"
| "time_of (RequestEnded now) = now"
| "time_of (TimeIs now) = now"

definition with_refs :: "segmenter \<Rightarrow> hook_state \<Rightarrow> hook_state" where
  "with_refs r st = st\<lparr>hookOf := (hookOf st)\<lparr>refs := r\<rparr>\<rparr>"

definition hook_event_at :: "hook_event \<Rightarrow> hook_state \<Rightarrow> hook_state option" where
  "hook_event_at e st =
     (case e of
        StartHook now external voice \<Rightarrow>
          Some (st\<lparr>hookOf := startTextTranslation now external voice (hookOf st),
                   nextTick := (case nextTick st of
                                  None \<Rightarrow> Some (now + 500)
                                | Some t \<Rightarrow> Some t)\<rparr>)
      | StopHook now \<Rightarrow>
          Some (st\<lparr>hookOf := stopTextTranslation (hookOf st), nextTick := None\<rparr>)
      | FeedTranscript now transcript \<Rightarrow>
          (let r = feedTranscript now transcript (refs (hookOf st)) in
             Some (record_call now (snd r) (with_refs (fst r) st)))
      | RecognitionResult now transcript \<Rightarrow>
          (if textRecognitionRef (hookOf st) then
             (let r = processTranscript now transcript
                        ((refs (hookOf st))\<lparr>lastActivityTime := now\<rparr>) in
                Some (record_call now (snd r) (with_refs (fst r) st)))
           else None)
      | ChunkArrived now \<Rightarrow>
          (if pendingRequests st = 0 then None
           else Some (with_refs ((refs (hookOf st))\<lparr>lastActivityTime := now\<rparr>) st))
      | RequestEnded now \<Rightarrow>
          (if pendingRequests st = 0 then None
           else Some ((with_refs (request_finished now (refs (hookOf st))) st)
                        \<lparr>pendingRequests := pendingRequests st - 1\<rparr>))
      | TimeIs now \<Rightarrow> Some st)"

definition hook_step :: "hook_event \<Rightarrow> hook_state \<Rightarrow> hook_state option" where
  "hook_step e st =
     (if time_of e < lastEvent st then None
      else hook_event_at e (advance (time_of e) st))"

fun hook_run :: "hook_event list \<Rightarrow> hook_state \<Rightarrow> hook_state option" where
  "hook_run [] st = Some st"
| "hook_run (e # es) st =
     (case hook_step e st of None \<Rightarrow> None | Some st' \<Rightarrow> hook_run es st')"

section \<open>Session orchestrator\<close>

datatype mode = Live | Text | LocalOmni | LocalPipeline | PersonaPlex

text \<open>
  The hooks and the selector state of the five-mode Teleprompter. The source of
  \<open>useLocalOmni\<close> is not part of the sources at hand: its state is the type parameter
  \<open>'o\<close>, and its \<open>connect\<close> and \<open>disconnect\<close> are parameters of the functions below.
  \<open>clock\<close> is the reading of \<open>Date.now()\<close>.
\<close>

record 'o teleprompter =
  liveHook :: live
  textHook :: text_hook
  omniHook :: 'o
  pipelineHook :: pipeline
  personaHook :: personaplex
  showSubtitles :: bool
  translationMode :: mode
  isListening :: bool
  pipelineAsrMode :: asrMode
  quickResponse :: bool
  voiceMode :: ttsMode
  clock :: int

definition teleprompter_init :: "'o \<Rightarrow> 'o teleprompter" where
  "teleprompter_init o_init =
     \<lparr>liveHook = live_init, textHook = text_init, omniHook = o_init,
      pipelineHook = pipeline_init, personaHook = personaplex_init,
      showSubtitles = False, translationMode = Live, isListening = False,
      pipelineAsrMode = BrowserAsr, quickResponse = False, voiceMode = BrowserVoice,
      clock = 0\<rparr>"

definition disconnectAll :: "('o \<Rightarrow> 'o) \<Rightarrow> 'o teleprompter \<Rightarrow> 'o teleprompter" where
  "disconnectAll disconnectLocalOmni t =
     t\<lparr>liveHook := disconnectLive (liveHook t),
       textHook := stopTextTranslation (textHook t),
       omniHook := disconnectLocalOmni (omniHook t),
       pipelineHook := stopLocalPipeline (pipelineHook t),
       personaHook := disconnectPersonaPlex (personaHook t)\<rparr>"

text \<open>The body of the mode effect: the teardowns of the other four modes, then the start
  of the selected one, in the order of the source.\<close>

definition mode_effect ::
    "('o \<Rightarrow> 'o) \<Rightarrow> ('o \<Rightarrow> 'o) \<Rightarrow> 'o teleprompter \<Rightarrow> 'o teleprompter" where
  "mode_effect connectLocalOmni disconnectLocalOmni t =
     (if showSubtitles t then
        (case translationMode t of
           Live \<Rightarrow>
             t\<lparr>textHook := stopTextTranslation (textHook t),
               omniHook := disconnectLocalOmni (omniHook t),
               pipelineHook := stopLocalPipeline (pipelineHook t),
               personaHook := disconnectPersonaPlex (personaHook t),
               liveHook := connectLive (quickResponse t) (liveHook t)\<rparr>
         | Text \<Rightarrow>
             t\<lparr>liveHook := disconnectLive (liveHook t),
               omniHook := disconnectLocalOmni (omniHook t),
               pipelineHook := stopLocalPipeline (pipelineHook t),
               personaHook := disconnectPersonaPlex (personaHook t),
               textHook := startTextTranslation (clock t) (isListening t) (voiceMode t)
                             (textHook t)\<rparr>
         | LocalOmni \<Rightarrow>
             t\<lparr>liveHook := disconnectLive (liveHook t),
               textHook := stopTextTranslation (textHook t),
               pipelineHook := stopLocalPipeline (pipelineHook t),
               personaHook := disconnectPersonaPlex (personaHook t),
               omniHook := connectLocalOmni (omniHook t)\<rparr>
         | LocalPipeline \<Rightarrow>
             t\<lparr>liveHook := disconnectLive (liveHook t),
               textHook := stopTextTranslation (textHook t),
               omniHook := disconnectLocalOmni (omniHook t),
               personaHook := disconnectPersonaPlex (personaHook t),
               pipelineHook := startLocalPipeline (pipelineAsrMode t) (pipelineHook t)\<rparr>
         | PersonaPlex \<Rightarrow>
             t\<lparr>liveHook := disconnectLive (liveHook t),
               textHook := stopTextTranslation (textHook t),
               omniHook := disconnectLocalOmni (omniHook t),
               pipelineHook := stopLocalPipeline (pipelineHook t),
               personaHook := connectPersonaPlex (personaHook t)\<rparr>)
      else disconnectAll disconnectLocalOmni t)"

text \<open>\<open>activeIsConnecting\<close>: the connecting flag of the selected mode; the text mode and
  the local pipeline have none. The flag of \<open>useLocalOmni\<close> is read by a parameter.\<close>

definition activeIsConnecting :: "('o \<Rightarrow> bool) \<Rightarrow> 'o teleprompter \<Rightarrow> bool" where
  "activeIsConnecting isLocalOmniConnecting t =
     (case translationMode t of
        Live \<Rightarrow> isLiveConnecting (liveHook t)
      | LocalOmni \<Rightarrow> isLocalOmniConnecting (omniHook t)
      | PersonaPlex \<Rightarrow> isPersonaPlexConnecting (personaHook t)
      | Text \<Rightarrow> False
      | LocalPipeline \<Rightarrow> False)"

text \<open>What happens to the component, one call at a time. The subtitles button is disabled
  while \<open>activeIsConnecting()\<close> holds, and the five mode buttons are disabled while
  \<open>showSubtitles\<close> holds: a click on a disabled button does not happen. A change of
  \<open>showSubtitles\<close> or \<open>translationMode\<close> re-renders the component; React then runs the
  cleanup of the mode effect (\<open>disconnectAll\<close>) and its body. The other actions are
  callbacks of the browser: the microphone promise of a suspended \<open>connectLive\<close> resolves,
  a live session opens, a socket of the local pipeline opens, time passes. \<open>None\<close>: the
  action cannot happen in that state.\<close>

datatype action =
    ToggleSubtitles
  | SelectMode mode
  | LiveMicrophoneGranted
  | LiveSessionOpened nat
  | PipelineSocketOpened nat
  | TimePasses nat

definition rerun_mode_effect ::
    "('o \<Rightarrow> 'o) \<Rightarrow> ('o \<Rightarrow> 'o) \<Rightarrow> 'o teleprompter \<Rightarrow> 'o teleprompter" where
  "rerun_mode_effect connectLocalOmni disconnectLocalOmni t =
     mode_effect connectLocalOmni disconnectLocalOmni (disconnectAll disconnectLocalOmni t)"

definition perform ::
    "('o \<Rightarrow> 'o) \<Rightarrow> ('o \<Rightarrow> 'o) \<Rightarrow> ('o \<Rightarrow> bool) \<Rightarrow> action \<Rightarrow> 'o teleprompter
       \<Rightarrow> 'o teleprompter option" where
  "perform connectLocalOmni disconnectLocalOmni isLocalOmniConnecting a t =
     (case a of
        ToggleSubtitles \<Rightarrow>
          (if activeIsConnecting isLocalOmniConnecting t then None
           else Some (rerun_mode_effect connectLocalOmni disconnectLocalOmni
                        (t\<lparr>showSubtitles := \<not> showSubtitles t\<rparr>)))
      | SelectMode m \<Rightarrow>
          (if showSubtitles t then None
           else if m = translationMode t then Some t
           else Some (rerun_mode_effect connectLocalOmni disconnectLocalOmni
                        (t\<lparr>translationMode := m\<rparr>)))
      | LiveMicrophoneGranted \<Rightarrow>
          (case connectLive_granted (liveHook t) of
             None \<Rightarrow> None
           | Some l \<Rightarrow> Some (t\<lparr>liveHook := l\<rparr>))
      | LiveSessionOpened k \<Rightarrow>
          (case live_onopen k (liveHook t) of
             None \<Rightarrow> None
           | Some l \<Rightarrow> Some (t\<lparr>liveHook := l\<rparr>))
      | PipelineSocketOpened k \<Rightarrow>
          (case pipeline_onopen k (pipelineHook t) of
             None \<Rightarrow> None
           | Some p \<Rightarrow> Some (t\<lparr>pipelineHook := p\<rparr>))
      | TimePasses ms \<Rightarrow> Some (t\<lparr>clock := clock t + int ms\<rparr>))"

fun perform_all ::
    "('o \<Rightarrow> 'o) \<Rightarrow> ('o \<Rightarrow> 'o) \<Rightarrow> ('o \<Rightarrow> bool) \<Rightarrow> action list \<Rightarrow> 'o teleprompter
       \<Rightarrow> 'o teleprompter option" where
  "perform_all c d g [] t = Some t"
| "perform_all c d g (a # as) t =
     (case perform c d g a t of None \<Rightarrow> None | Some t' \<Rightarrow> perform_all c d g as t')"

text \<open>The modes, among those with sources at hand, that report connected or active.\<close>

definition connected_modes :: "'o teleprompter \<Rightarrow> mode list" where
  "connected_modes t =
     (if isLiveConnected (liveHook t) then [Live] else [])
     @ (if isTextActive (textHook t) then [Text] else [])
     @ (if isLocalPipelineActive (pipelineHook t) then [LocalPipeline] else [])
     @ (if isPersonaPlexConnected (personaHook t) then [PersonaPlex] else [])"

section \<open>Properties of the position tracker\<close>

lemma scan_Some:
  "scan words lw second third a e i = Inr (Some j) \<Longrightarrow>
     i \<le> j - 1 \<and> j - 1 < e \<and> word_at words (j - 1) = Inr lw
     \<and> requiredMatches (j - 1 - a) \<le> matchCount words second third (j - 1)"
proof (induction words lw second third a e i rule: scan.induct)
  case (1 words lw second third a e i)
  show ?case
  proof (cases "i < e")
    case False
    with "1.prems" show ?thesis by (simp add: scan.simps)
  next
    case True
    show ?thesis
    proof (cases "word_at words i")
      case (Inl err)
      with True "1.prems" show ?thesis by (simp add: scan.simps)
    next
      case (Inr sw)
      show ?thesis
      proof (cases "sw = lw \<and> requiredMatches (i - a) \<le> matchCount words second third i")
        case hit: True
        with True Inr "1.prems" have "j = i + 1" by (simp add: scan.simps)
        with True Inr hit show ?thesis by simp
      next
        case miss: False
        with True Inr "1.prems"
        have "scan words lw second third a e (i + 1) = Inr (Some j)"
          by (auto simp add: scan.simps [of words lw second third a e i])
        from "1.IH" [OF True Inr miss this] show ?thesis by simp
      qed
    qed
  qed
qed

lemma scan_total:
  "0 \<le> i \<Longrightarrow> e \<le> int (length words) \<Longrightarrow> \<exists>r. scan words lw second third a e i = Inr r"
proof (induction words lw second third a e i rule: scan.induct)
  case (1 words lw second third a e i)
  show ?case
  proof (cases "i < e")
    case False
    then show ?thesis by (simp add: scan.simps)
  next
    case True
    with "1.prems" obtain sw where sw: "word_at words i = Inr sw"
      by (auto simp add: word_at_def)
    show ?thesis
    proof (cases "sw = lw \<and> requiredMatches (i - a) \<le> matchCount words second third i")
      case hit: True
      with True sw show ?thesis by (simp add: scan.simps)
    next
      case miss: False
      from "1.prems" have "0 \<le> i + 1" by simp
      from "1.IH" [OF True sw miss this "1.prems"(2)] miss True sw
      show ?thesis by (auto simp add: scan.simps [of words lw second third a e i])
    qed
  qed
qed

lemma scan_live_only_Some:
  "scan_live_only words lw second a e i = Inr (Some j) \<Longrightarrow>
     i \<le> j - 1 \<and> j - 1 < e \<and> word_at words (j - 1) = Inr lw
     \<and> (truthy second \<and> j - 1 > 0 \<and> Some (cleanWord (words ! nat (j - 1 - 1))) = second
          \<or> a = 0)"
proof (induction words lw second a e i rule: scan_live_only.induct)
  case (1 words lw second a e i)
  show ?case
  proof (cases "i < e")
    case False
    with "1.prems" show ?thesis by (simp add: scan_live_only.simps)
  next
    case True
    show ?thesis
    proof (cases "word_at words i")
      case (Inl err)
      with True "1.prems" show ?thesis by (simp add: scan_live_only.simps)
    next
      case (Inr sw)
      show ?thesis
      proof (cases "sw = lw")
        case same: True
        show ?thesis
        proof (cases "truthy second \<and> i > 0 \<and> Some (cleanWord (words ! nat (i - 1))) = second")
          case corroborated: True
          with True Inr same "1.prems" have "j = i + 1"
            by (simp add: scan_live_only.simps [of words lw second a e i])
          with True Inr same corroborated show ?thesis by simp
        next
          case single: False
          show ?thesis
          proof (cases "a = 0")
            case at_start: True
            with True Inr same single "1.prems" have "j = i + 1"
              by (auto simp add: scan_live_only.simps [of words lw second 0 e i])
            with True Inr same at_start show ?thesis by simp
          next
            case later: False
            with True Inr same single "1.prems"
            have "scan_live_only words lw second a e (i + 1) = Inr (Some j)"
              by (auto simp add: scan_live_only.simps [of words lw second a e i])
            from "1.IH"(1) [OF True Inr same single later this] show ?thesis by simp
          qed
        qed
      next
        case differs: False
        with True Inr "1.prems"
        have "scan_live_only words lw second a e (i + 1) = Inr (Some j)"
          by (auto simp add: scan_live_only.simps [of words lw second a e i])
        from "1.IH"(2) [OF True Inr differs this] show ?thesis by simp
      qed
    qed
  qed
qed

lemma scan_live_only_total:
  "0 \<le> i \<Longrightarrow> e \<le> int (length words) \<Longrightarrow> \<exists>r. scan_live_only words lw second a e i = Inr r"
proof (induction words lw second a e i rule: scan_live_only.induct)
  case (1 words lw second a e i)
  show ?case
  proof (cases "i < e")
    case False
    then show ?thesis by (simp add: scan_live_only.simps)
  next
    case True
    with "1.prems" obtain sw where sw: "word_at words i = Inr sw"
      by (auto simp add: word_at_def)
    from "1.prems" have nxt: "0 \<le> i + 1" by simp
    show ?thesis
    proof (cases "sw = lw")
      case differs: False
      from "1.IH"(2) [OF True sw differs nxt "1.prems"(2)] differs True sw
      show ?thesis by (auto simp add: scan_live_only.simps [of words lw second a e i])
    next
      case same: True
      show ?thesis
      proof (cases "(truthy second \<and> i > 0 \<and> Some (cleanWord (words ! nat (i - 1))) = second)
                    \<or> a = 0")
        case True
        with \<open>i < e\<close> sw same show ?thesis
          by (auto simp add: scan_live_only.simps [of words lw second a e i])
      next
        case False
        then have single: "\<not> (truthy second \<and> i > 0
                      \<and> Some (cleanWord (words ! nat (i - 1))) = second)"
          and later: "a \<noteq> 0" by auto
        from "1.IH"(1) [OF True sw same single later nxt "1.prems"(2)] same single later True sw
        show ?thesis by (auto simp add: scan_live_only.simps [of words lw second a e i])
      qed
    qed
  qed
qed

lemma track_Some:
  assumes "track words transcript a = Inr (Some j)"
  shows "transcript_words transcript \<noteq> []
     \<and> a \<le> j - 1 \<and> j - 1 < min (a + searchWindow) (int (length words))
     \<and> word_at words (j - 1) = Inr (lastWord (transcript_words transcript))
     \<and> requiredMatches (j - 1 - a)
          \<le> matchCount words (secondLastWord (transcript_words transcript))
               (thirdLastWord (transcript_words transcript)) (j - 1)"
  using assms scan_Some [of words "lastWord (transcript_words transcript)"
      "secondLastWord (transcript_words transcript)" "thirdLastWord (transcript_words transcript)"
      a "min (a + searchWindow) (int (length words))" a j]
  by (auto simp add: track_def Let_def split: if_splits)

lemma track_live_only_Some:
  assumes "track_live_only words transcript a = Inr (Some j)"
  shows "transcript_words transcript \<noteq> []
     \<and> a \<le> j - 1 \<and> j - 1 < min (a + searchWindow) (int (length words))
     \<and> word_at words (j - 1) = Inr (lastWord (transcript_words transcript))
     \<and> (truthy (secondLastWord (transcript_words transcript)) \<and> j - 1 > 0
          \<and> Some (cleanWord (words ! nat (j - 1 - 1))) = secondLastWord (transcript_words transcript)
          \<or> a = 0)"
  using assms scan_live_only_Some [of words "lastWord (transcript_words transcript)"
      "secondLastWord (transcript_words transcript)"
      a "min (a + searchWindow) (int (length words))" a j]
  by (auto simp add: track_live_only_def Let_def split: if_splits)

lemma track_total: "0 \<le> a \<Longrightarrow> \<exists>r. track words transcript a = Inr r"
  using scan_total [of a "min (a + searchWindow) (int (length words))" words]
  by (simp add: track_def Let_def)

lemma track_live_only_total: "0 \<le> a \<Longrightarrow> \<exists>r. track_live_only words transcript a = Inr r"
  using scan_live_only_total [of a "min (a + searchWindow) (int (length words))" words]
  by (simp add: track_live_only_def Let_def)

lemma tracker_update_cases:
  assumes "tracker_update words t a = Inr a'"
  shows "a' = a \<or> (\<exists>i\<ge>a. a' = i + 1 \<and> 0 \<le> i \<and> i < int (length words)
            \<and> cleanWord (words ! nat i) = lastWord (transcript_words t))"
proof (cases "track words t a")
  case (Inl e)
  with assms show ?thesis by (simp add: tracker_update_def)
next
  case (Inr r)
  show ?thesis
  proof (cases r)
    case None
    with Inr assms show ?thesis by (simp add: tracker_update_def)
  next
    case (Some j)
    with Inr assms have "a' = j" by (simp add: tracker_update_def)
    moreover from Inr Some have "track words t a = Inr (Some j)" by simp
    note track_Some [OF this]
    ultimately have "a \<le> a' - 1 \<and> a' = (a' - 1) + 1 \<and> 0 \<le> a' - 1 \<and> a' - 1 < int (length words)
        \<and> cleanWord (words ! nat (a' - 1)) = lastWord (transcript_words t)"
      by (auto simp add: word_at_def split: if_splits)
    then show ?thesis by blast
  qed
qed

lemma tracker_update_live_only_cases:
  assumes "tracker_update_live_only words t a = Inr a'"
  shows "a' = a \<or> (\<exists>i\<ge>a. a' = i + 1 \<and> 0 \<le> i \<and> i < int (length words)
            \<and> cleanWord (words ! nat i) = lastWord (transcript_words t))"
proof (cases "track_live_only words t a")
  case (Inl e)
  with assms show ?thesis by (simp add: tracker_update_live_only_def)
next
  case (Inr r)
  show ?thesis
  proof (cases r)
    case None
    with Inr assms show ?thesis by (simp add: tracker_update_live_only_def)
  next
    case (Some j)
    with Inr assms have "a' = j" by (simp add: tracker_update_live_only_def)
    moreover from Inr Some have "track_live_only words t a = Inr (Some j)" by simp
    note track_live_only_Some [OF this]
    ultimately have "a \<le> a' - 1 \<and> a' = (a' - 1) + 1 \<and> 0 \<le> a' - 1 \<and> a' - 1 < int (length words)
        \<and> cleanWord (words ! nat (a' - 1)) = lastWord (transcript_words t)"
      by (auto simp add: word_at_def split: if_splits)
    then show ?thesis by blast
  qed
qed

lemma tracker_update_total: "0 \<le> a \<Longrightarrow> \<exists>a'. tracker_update words t a = Inr a'"
  using track_total [of a words t]
  by (auto simp add: tracker_update_def split: option.splits)

lemma tracker_update_live_only_total:
  "0 \<le> a \<Longrightarrow> \<exists>a'. tracker_update_live_only words t a = Inr a'"
  using track_live_only_total [of a words t]
  by (auto simp add: tracker_update_live_only_def split: option.splits)

lemma tracker_update_mono: "tracker_update words t a = Inr a' \<Longrightarrow> a \<le> a'"
  using tracker_update_cases [of words t a a'] by auto

lemma tracker_update_live_only_mono: "tracker_update_live_only words t a = Inr a' \<Longrightarrow> a \<le> a'"
  using tracker_update_live_only_cases [of words t a a'] by auto

lemma run_updates_mono: "run_updates words ts a = Inr a' \<Longrightarrow> a \<le> a'"
proof (induction ts arbitrary: a)
  case Nil
  then show ?case by simp
next
  case (Cons t ts)
  then obtain b where b: "tracker_update words t a = Inr b" and r: "run_updates words ts b = Inr a'"
    by (auto split: sum.splits)
  from tracker_update_mono [OF b] Cons.IH [OF r] show ?case by simp
qed

lemma run_updates_live_only_mono: "run_updates_live_only words ts a = Inr a' \<Longrightarrow> a \<le> a'"
proof (induction ts arbitrary: a)
  case Nil
  then show ?case by simp
next
  case (Cons t ts)
  then obtain b where b: "tracker_update_live_only words t a = Inr b"
    and r: "run_updates_live_only words ts b = Inr a'"
    by (auto split: sum.splits)
  from tracker_update_live_only_mono [OF b] Cons.IH [OF r] show ?case by simp
qed

lemma run_updates_total: "0 \<le> a \<Longrightarrow> \<exists>a'. run_updates words ts a = Inr a'"
proof (induction ts arbitrary: a)
  case Nil
  then show ?case by simp
next
  case (Cons t ts)
  from tracker_update_total [OF Cons.prems] obtain b where b: "tracker_update words t a = Inr b"
    by blast
  from tracker_update_mono [OF b] Cons.prems have "0 \<le> b" by simp
  from Cons.IH [OF this] b show ?case by simp
qed

lemma run_updates_live_only_total: "0 \<le> a \<Longrightarrow> \<exists>a'. run_updates_live_only words ts a = Inr a'"
proof (induction ts arbitrary: a)
  case Nil
  then show ?case by simp
next
  case (Cons t ts)
  from tracker_update_live_only_total [OF Cons.prems]
  obtain b where b: "tracker_update_live_only words t a = Inr b" by blast
  from tracker_update_live_only_mono [OF b] Cons.prems have "0 \<le> b" by simp
  from Cons.IH [OF this] b show ?case by simp
qed

lemma handleKeyDown_range:
  "0 < len \<Longrightarrow> 0 \<le> a \<Longrightarrow> a \<le> int len \<Longrightarrow>
     0 \<le> handleKeyDown len pdf k a \<and> handleKeyDown len pdf k a \<le> int len"
  by (auto simp add: handleKeyDown_def)

lemma step_range:
  assumes "words \<noteq> []" "0 \<le> a" "a \<le> int (length words)" "enabled words e"
  shows "\<exists>a'. step words pdf e a = Inr a' \<and> 0 \<le> a' \<and> a' \<le> int (length words)"
proof (cases e)
  case (TranscriptUpdate t)
  from tracker_update_total [OF assms(2)] obtain b where b: "tracker_update words t a = Inr b"
    by blast
  from tracker_update_cases [OF b] assms(2,3) have "0 \<le> b \<and> b \<le> int (length words)" by auto
  with b TranscriptUpdate show ?thesis by (simp add: step_def)
next
  case (Click i)
  with assms show ?thesis by (simp add: step_def enabled_def)
next
  case (KeyDown k)
  with assms handleKeyDown_range [of "length words" a pdf k] show ?thesis by (simp add: step_def)
next
  case Restart
  then show ?thesis by (simp add: step_def)
qed

lemma run_events_range:
  "words \<noteq> [] \<Longrightarrow> 0 \<le> a \<Longrightarrow> a \<le> int (length words) \<Longrightarrow> \<forall>e\<in>set es. enabled words e \<Longrightarrow>
     \<exists>a'. run_events words pdf es a = Inr a' \<and> 0 \<le> a' \<and> a' \<le> int (length words)"
proof (induction es arbitrary: a)
  case Nil
  then show ?case by simp
next
  case (Cons e es)
  from Cons.prems have "enabled words e" by simp
  from step_range [OF Cons.prems(1,2,3) this]
  obtain b where b: "step words pdf e a = Inr b" "0 \<le> b" "b \<le> int (length words)" by blast
  from Cons.prems have "\<forall>e\<in>set es. enabled words e" by simp
  from Cons.IH [OF Cons.prems(1) b(2,3) this] b(1) show ?case by simp
qed

lemma the_cat_script:
  "map cleanWord (script_words ''the cat sat on the mat'')
     = [''the'', ''cat'', ''sat'', ''on'', ''the'', ''mat'']"
  by code_simp

lemma twelve_script_length:
  "length (script_words
     ''one two three four five six seven eight nine ten eleven twelve thirteen'') = 13"
  by code_simp

subsection \<open>Distance-gated confirmation\<close>




subsection \<open>Monotonic automatic advance\<close>

text \<open>
  C3. A sequence of runs of the tracking effect, started at a cursor that is not negative,
  returns normally and never moves the cursor backwards; a single run leaves the cursor
  unchanged or sets it to \<open>i + 1\<close> for a candidate \<open>i\<close> at or after the cursor whose
  script word is the last spoken word. Both Teleprompter variants.
\<close>

theorem tracker_monotonic:
  "(0 \<le> activeIndex \<longrightarrow> (\<exists>a'. run_updates words ts activeIndex = Inr a' \<and> activeIndex \<le> a'))
   \<and> (0 \<le> activeIndex \<longrightarrow>
        (\<exists>a'. run_updates_live_only words ts activeIndex = Inr a' \<and> activeIndex \<le> a'))
   \<and> (run_updates words ts activeIndex = Inr b \<longrightarrow> activeIndex \<le> b)
   \<and> (run_updates_live_only words ts activeIndex = Inr b \<longrightarrow> activeIndex \<le> b)
   \<and> (tracker_update words t activeIndex = Inr b \<longrightarrow>
        b = activeIndex \<or> (\<exists>i\<ge>activeIndex. b = i + 1 \<and> 0 \<le> i \<and> i < int (length words)
            \<and> cleanWord (words ! nat i) = lastWord (transcript_words t)))
   \<and> (tracker_update_live_only words t activeIndex = Inr b \<longrightarrow>
        b = activeIndex \<or> (\<exists>i\<ge>activeIndex. b = i + 1 \<and> 0 \<le> i \<and> i < int (length words)
            \<and> cleanWord (words ! nat i) = lastWord (transcript_words t)))"
  using run_updates_total [of activeIndex words ts] run_updates_mono [of words ts activeIndex]
    run_updates_live_only_total [of activeIndex words ts]
    run_updates_live_only_mono [of words ts activeIndex]
    tracker_update_cases [of words t activeIndex b]
    tracker_update_live_only_cases [of words t activeIndex b]
  by blast

theorem tracker_monotonic_witness:
  "(\<exists>a'. run_updates (script_words ''the cat sat on the mat'') [''the'', ''the cat''] 0 = Inr a'
         \<and> 0 \<le> a')
   \<and> (\<exists>a'. run_updates_live_only (script_words ''the cat sat on the mat'') [''the'', ''the cat''] 0
          = Inr a' \<and> 0 \<le> a')
   \<and> run_updates (script_words ''the cat sat on the mat'') [''the'', ''the cat''] 0 = Inr 2
   \<and> run_updates_live_only (script_words ''the cat sat on the mat'') [''the'', ''the cat''] 0
       = Inr 2
   \<and> tracker_update (script_words ''the cat sat on the mat'') ''the cat'' 0 = Inr 2
   \<and> tracker_update_live_only (script_words ''the cat sat on the mat'') ''the cat'' 0 = Inr 2
   \<and> (0::int) \<le> 2"
proof -
  let ?ws = "script_words ''the cat sat on the mat''"
  have a: "run_updates ?ws [''the'', ''the cat''] 0 = Inr 2" by code_simp
  have b: "run_updates_live_only ?ws [''the'', ''the cat''] 0 = Inr 2" by code_simp
  have c: "tracker_update ?ws ''the cat'' 0 = Inr 2" by code_simp
  have d: "tracker_update_live_only ?ws ''the cat'' 0 = Inr 2" by code_simp
  from tracker_monotonic [of 0 ?ws "[''the'', ''the cat'']" 2 "''the cat''"] a b c d
  show ?thesis by simp
qed

subsection \<open>Range of the cursor\<close>

text \<open>
  C2, as the code has it. With a non-empty script and only rendered words clicked, every
  sequence of tracker updates, clicks, key presses and restarts keeps \<open>activeIndex\<close> in
  the closed range from 0 to the number of words. A click, an arrow key and a restart leave it
  below the number of words; a tracking advance sets it to the matched index plus one, which
  is at most the number of words.
\<close>

theorem cursor_range:
  assumes "words \<noteq> []" and "0 \<le> activeIndex" and "activeIndex \<le> int (length words)"
    and "\<forall>e\<in>set es. enabled words e"
  shows "(\<exists>a'. run_events words pdfFile es activeIndex = Inr a'
            \<and> 0 \<le> a' \<and> a' \<le> int (length words))
    \<and> (\<forall>i < length words. step words pdfFile (Click i) activeIndex = Inr (int i))
    \<and> step words pdfFile Restart activeIndex = Inr 0
    \<and> (\<forall>k \<in> {ArrowRight, ArrowDown, ArrowLeft, ArrowUp}.
          \<exists>a'. step words False (KeyDown k) activeIndex = Inr a'
            \<and> 0 \<le> a' \<and> a' < int (length words))
    \<and> (\<forall>t j. track words t activeIndex = Inr (Some j) \<longrightarrow>
          activeIndex < j \<and> j \<le> int (length words))"
proof (intro conjI allI impI ballI)
  show "\<exists>a'. run_events words pdfFile es activeIndex = Inr a'
            \<and> 0 \<le> a' \<and> a' \<le> int (length words)"
    using run_events_range [OF assms] .
next
  fix i assume "i < length words"
  show "step words pdfFile (Click i) activeIndex = Inr (int i)" by (simp add: step_def)
next
  show "step words pdfFile Restart activeIndex = Inr 0" by (simp add: step_def)
next
  fix k assume "k \<in> {ArrowRight, ArrowDown, ArrowLeft, ArrowUp}"
  with assms(1,2,3)
  show "\<exists>a'. step words False (KeyDown k) activeIndex = Inr a'
            \<and> 0 \<le> a' \<and> a' < int (length words)"
    by (auto simp add: step_def handleKeyDown_def)
next
  fix t j assume "track words t activeIndex = Inr (Some j)"
  from track_Some [OF this] show "activeIndex < j" by simp
next
  fix t j assume "track words t activeIndex = Inr (Some j)"
  from track_Some [OF this] show "j \<le> int (length words)" by simp
qed

theorem cursor_range_witness:
  "(\<exists>a'. run_events (script_words ''the cat sat'') False
           [TranscriptUpdate ''the'', KeyDown ArrowLeft, KeyDown ArrowRight, Click 2, Restart,
            TranscriptUpdate ''the cat sat''] 0 = Inr a'
      \<and> 0 \<le> a' \<and> a' \<le> int (length (script_words ''the cat sat'')))
   \<and> step (script_words ''the cat sat'') False (Click 2) 0 = Inr 2
   \<and> step (script_words ''the cat sat'') False (KeyDown ArrowRight) 0 = Inr 1
   \<and> track (script_words ''the cat sat'') ''the cat sat'' 0 = Inr (Some 3)"
proof -
  let ?ws = "script_words ''the cat sat''"
  let ?es = "[TranscriptUpdate ''the'', KeyDown ArrowLeft, KeyDown ArrowRight, Click 2, Restart,
            TranscriptUpdate ''the cat sat'']"
  have len: "length ?ws = 3" by code_simp
  then have ne: "?ws \<noteq> []" by auto
  have en: "\<forall>e\<in>set ?es. enabled ?ws e" by (simp add: enabled_def len)
  have t: "track ?ws ''the cat sat'' 0 = Inr (Some 3)" by code_simp
  have k: "step ?ws False (KeyDown ArrowRight) 0 = Inr 1" by code_simp
  from cursor_range [OF ne _ _ en, of 0 False] len t k show ?thesis by simp
qed

text \<open>The claim's half-open range fails: matching the last word of the script moves the
  cursor to the number of words.\<close>

theorem cursor_reaches_length_counterexample:
  "run_events (script_words ''hello world'') False [TranscriptUpdate ''hello world''] 1 = Inr 2
   \<and> int (length (script_words ''hello world'')) = 2
   \<and> enabled (script_words ''hello world'') (TranscriptUpdate ''hello world'')"
  by code_simp

section \<open>Properties of the transcript segmenter\<close>

lemma split_ws_ne: "split_ws s \<noteq> []"
  by (induction s) (auto split: list.splits)

lemma split_ws_nonspace:
  "\<not> is_space c \<Longrightarrow> length (split_ws (c # cs)) = length (split_ws cs)"
  using split_ws_ne [of cs] by (cases "split_ws cs") auto

lemma split_ws_length:
  "length (split_ws s) = count_words s + (if s = [] \<or> is_space (last s) then 1 else 0)
       + (if s \<noteq> [] \<and> is_space (hd s) then 1 else 0)"
proof (induction s)
  case Nil
  show ?case by simp
next
  case (Cons c cs)
  show ?case
  proof (cases "is_space c")
    case True
    with Cons show ?thesis by (cases cs) auto
  next
    case False
    with Cons show ?thesis by (cases cs) (auto simp add: split_ws_nonspace simp del: split_ws.simps)
  qed
qed

lemma trim_ends:
  assumes "trim s \<noteq> []"
  shows "\<not> is_space (hd (trim s)) \<and> \<not> is_space (last (trim s))"
proof -
  let ?ys = "dropWhile is_space s"
  let ?zs = "dropWhile is_space (rev ?ys)"
  from assms have zs: "?zs \<noteq> []" by (simp add: trim_def)
  then have ys: "?ys \<noteq> []" by (metis dropWhile.simps(1) rev.simps(1))
  from zs have "\<not> is_space (hd ?zs)" by (rule hd_dropWhile)
  then have l: "\<not> is_space (last (trim s))" using zs by (simp add: trim_def last_rev)
  from ys have h: "\<not> is_space (hd ?ys)" by (rule hd_dropWhile)
  have "hd (rev ?zs) = last ?zs" using zs by (simp add: hd_rev)
  also have "\<dots> = last (rev ?ys)" using zs
    by (metis append_Nil2 last_appendR takeWhile_dropWhile_id)
  also have "\<dots> = hd ?ys" using ys by (simp add: last_rev)
  finally have "hd (trim s) = hd ?ys" by (simp add: trim_def)
  with h l show ?thesis by simp
qed

lemma wordCount_trim: "trim s \<noteq> [] \<Longrightarrow> wordCount (trim s) = count_words (trim s)"
  using trim_ends [of s] by (simp add: wordCount_def split_ws_length)

lemma count_words_trim_Nil: "count_words [] = 0 \<and> wordCount [] = 1"
  by (simp add: wordCount_def)

lemma translateText_called: "snd (translateText now text st) \<noteq> NoCall"
  by (simp add: translateText_def begin_request_def Let_def)

lemma translateText_lastProcessed:
  "lastProcessed (fst (translateText now text st)) = lastProcessed st"
  by (simp add: translateText_def begin_request_def Let_def)

lemma translateText_outcome:
  "snd (translateText now text st) = Dropped text \<or> snd (translateText now text st) = Started text"
  by (simp add: translateText_def begin_request_def Let_def)

lemma newContent_trimmed: "\<exists>s. newContent w t = trim s"
  by (auto simp add: newContent_def)

lemma newContent_wordCount:
  "newContent w t \<noteq> [] \<Longrightarrow> wordCount (newContent w t) = count_words (newContent w t)"
  using newContent_trimmed [of w t] wordCount_trim by auto

lemma trim_Nil: "trim [] = []"
  by (simp add: trim_def)

lemma newContent_same: "newContent w w = []"
  by (simp add: newContent_def startsWith_def trim_Nil)

lemma newContent_empty: "newContent w [] = []"
  by (simp add: newContent_def trim_Nil)

lemma hasCompleteSentence_Nil: "\<not> hasCompleteSentence []"
  by (simp add: hasCompleteSentence_def)

lemma processTranscript_trigger:
  "snd (processTranscript now t st) \<noteq> NoCall \<longleftrightarrow>
     hasCompleteSentence (newContent (lastProcessed st) t)
     \<or> 5 \<le> count_words (newContent (lastProcessed st) t)"
proof (cases "t = [] \<or> t = lastProcessed st \<or> newContent (lastProcessed st) t = []")
  case True
  then have "newContent (lastProcessed st) t = []"
    using newContent_same newContent_empty by auto
  with True show ?thesis
    by (auto simp add: processTranscript_def Let_def hasCompleteSentence_Nil)
next
  case False
  with newContent_wordCount [of "lastProcessed st" t] show ?thesis
    by (auto simp add: processTranscript_def Let_def translateText_called)
qed

lemma processTranscript_order:
  assumes "snd (processTranscript now t st) \<noteq> NoCall"
  shows "processTranscript now t st
           = translateText now (newContent (lastProcessed st) t)
               (st\<lparr>fullTranscript := t, sourceText := t, lastProcessed := t\<rparr>)"
  using assms by (auto simp add: processTranscript_def Let_def split: if_splits)

lemma time_trigger_iff:
  "snd (time_trigger now st) \<noteq> NoCall \<longleftrightarrow>
     2000 \<le> now - lastProcessedTime st
     \<and> 2 \<le> count_words (trim (drop (length (lastProcessed st)) (fullTranscript st)))"
proof (cases "length (lastProcessed st) < length (fullTranscript st)")
  case False
  then show ?thesis by (simp add: time_trigger_def Let_def trim_Nil)
next
  case True
  show ?thesis
  proof (cases "trim (drop (length (lastProcessed st)) (fullTranscript st)) = []")
    case empty: True
    with True show ?thesis by (simp add: time_trigger_def Let_def)
  next
    case nonempty: False
    from wordCount_trim [OF this] True nonempty show ?thesis
      by (auto simp add: time_trigger_def Let_def translateText_called)
  qed
qed

lemma time_trigger_order:
  assumes "snd (time_trigger now st) \<noteq> NoCall"
  shows "time_trigger now st
           = translateText now (trim (drop (length (lastProcessed st)) (fullTranscript st)))
               (st\<lparr>lastProcessed := fullTranscript st\<rparr>)"
  using assms by (auto simp add: time_trigger_def Let_def split: if_splits)

lemma interval_tick_snd: "snd (interval_tick now st) = snd (time_trigger now st)"
  by (simp add: interval_tick_def split: prod.splits)

lemma interval_tick_fst: "fst (interval_tick now st) = health_check now (fst (time_trigger now st))"
  by (simp add: interval_tick_def split: prod.splits)

lemma health_check_lastProcessed: "lastProcessed (health_check now st) = lastProcessed st"
  by (simp add: health_check_def)

lemma processTranscript_fullTranscript:
  "t \<noteq> [] \<Longrightarrow> fullTranscript (fst (processTranscript now t st)) = t"
  by (simp add: processTranscript_def translateText_def begin_request_def Let_def)

lemma translateText_started_time:
  "snd (translateText now text st) = Started c \<Longrightarrow>
     lastProcessedTime (fst (translateText now text st)) = now
     \<and> isTranslating (fst (translateText now text st))"
  by (auto simp add: translateText_def begin_request_def Let_def split: if_splits)

lemma processTranscript_started_time:
  assumes "snd (processTranscript now t st) = Started c"
  shows "lastProcessedTime (fst (processTranscript now t st)) = now"
proof -
  from assms have h: "snd (processTranscript now t st) \<noteq> NoCall" by simp
  from assms translateText_started_time show ?thesis
    by (simp only: processTranscript_order [OF h])
qed

lemma health_check_lastProcessedTime:
  "lastProcessedTime (health_check now st) = lastProcessedTime st"
  by (simp add: health_check_def)

lemma interval_tick_started_time:
  assumes "snd (interval_tick now st) = Started c"
  shows "lastProcessedTime (fst (interval_tick now st)) = now"
proof -
  from assms have s: "snd (time_trigger now st) = Started c" by (simp add: interval_tick_snd)
  then have h: "snd (time_trigger now st) \<noteq> NoCall" by simp
  from s translateText_started_time
  have "lastProcessedTime (fst (time_trigger now st)) = now"
    by (simp only: time_trigger_order [OF h])
  then show ?thesis by (simp add: interval_tick_fst health_check_lastProcessedTime)
qed

lemma time_trigger_after_reset:
  "length (fullTranscript st) < length (lastProcessed st) \<Longrightarrow>
     snd (interval_tick now st) = NoCall"
  by (simp add: interval_tick_snd time_trigger_def Let_def)

lemma newContent_extension:
  "length w \<le> length t \<Longrightarrow> startsWith t (take (min 50 (length w)) w) \<Longrightarrow>
     newContent w t = trim (drop (length w) t)"
  by (auto simp add: newContent_def)

lemma newContent_shorter: "length t < length w \<Longrightarrow> newContent w t = trim t"
  by (simp add: newContent_def)

lemma timer_fires_on_extension:
  "map_option calls
     (hook_run
        [StartHook 0 True BrowserVoice,
         FeedTranscript 600 ''Hello there, how are you.'',
         RequestEnded 800,
         FeedTranscript 1200 ''Hello there, how are you. good morning'',
         TimeIs 10000]
        hook_init)
     = Some [(600, Started ''Hello there, how are you.''), (3000, Started ''good morning'')]"
  by code_simp

lemma timer_silent_after_reset:
  "map_option calls
     (hook_run
        [StartHook 0 True BrowserVoice,
         FeedTranscript 600 ''Hello there, how are you.'',
         RequestEnded 800,
         FeedTranscript 1200 ''good morning'',
         TimeIs 10000]
        hook_init)
     = Some [(600, Started ''Hello there, how are you.'')]"
  by code_simp

lemma timer_wrong_content_after_reset:
  "map_option calls
     (hook_run
        [StartHook 0 True BrowserVoice,
         FeedTranscript 600 ''Hello there,'',
         RequestEnded 800,
         FeedTranscript 1200 ''good morning everyone here'',
         TimeIs 10000]
        hook_init)
     = Some [(600, Started ''Hello there,''), (3000, Started ''everyone here'')]"
  by code_simp

subsection \<open>Translation triggers\<close>

text \<open>
  C4. \<open>processTranscript\<close> calls \<open>translateText\<close> exactly when the new content
  contains one of the marks \<open>. ! ? , ; :\<close> or has at least 5 white-space-delimited words;
  the call is made on the new content, in a state whose watermark \<open>lastProcessed\<close> is
  already the transcript, and a request that starts records the time. Every non-empty
  transcript is recorded as the full transcript, whether it triggers or not. The interval
  callback, which runs every 500 ms while the hook is active, calls \<open>translateText\<close>
  exactly when at least 2000 ms have passed since the time recorded by the last request and
  the full transcript beyond the first \<open>length lastProcessed\<close> characters, trimmed, has at
  least 2 words. That text is the new content when the transcript extends the watermark.
  When recognition has started over with a shorter transcript the callback never calls,
  whatever the new content is: fed \<open>good morning\<close> after the watermark
  \<open>Hello there, how are you.\<close>, the hook makes no call in the next 8800 ms, while the same
  two words fed as an extension are sent at the first callback 2000 ms after the last
  request. After a longer transcript that does not start with the watermark the callback
  sends the text beyond the watermark's length, not the new content.
\<close>

theorem segmenter_triggers:
  "(isActiveRef st \<and> useExternalTranscript st \<longrightarrow>
      feedTranscript now t st = processTranscript now t (st\<lparr>lastActivityTime := now\<rparr>))
   \<and> (\<not> (isActiveRef st \<and> useExternalTranscript st) \<longrightarrow>
        feedTranscript now t st = (st, NoCall))
   \<and> (snd (processTranscript now t st) \<noteq> NoCall \<longleftrightarrow>
      (\<exists>c \<in> set (newContent (lastProcessed st) t). c \<in> set ''.!?,;:'')
      \<or> 5 \<le> count_words (newContent (lastProcessed st) t))
   \<and> (snd (processTranscript now t st) \<noteq> NoCall \<longrightarrow>
        processTranscript now t st
          = translateText now (newContent (lastProcessed st) t)
              (st\<lparr>fullTranscript := t, sourceText := t, lastProcessed := t\<rparr>)
        \<and> lastProcessed (fst (processTranscript now t st)) = t)
   \<and> (t \<noteq> [] \<longrightarrow> fullTranscript (fst (processTranscript now t st)) = t)
   \<and> (snd (processTranscript now t st) = Started text \<longrightarrow>
        lastProcessedTime (fst (processTranscript now t st)) = now)
   \<and> (snd (interval_tick now st) \<noteq> NoCall \<longleftrightarrow>
        2000 \<le> now - lastProcessedTime st
        \<and> 2 \<le> count_words (trim (drop (length (lastProcessed st)) (fullTranscript st))))
   \<and> (snd (interval_tick now st) \<noteq> NoCall \<longrightarrow>
        time_trigger now st
          = translateText now (trim (drop (length (lastProcessed st)) (fullTranscript st)))
              (st\<lparr>lastProcessed := fullTranscript st\<rparr>)
        \<and> lastProcessed (fst (interval_tick now st)) = fullTranscript st)
   \<and> (snd (interval_tick now st) = Started text \<longrightarrow>
        lastProcessedTime (fst (interval_tick now st)) = now)
   \<and> (length (lastProcessed st) \<le> length (fullTranscript st)
        \<and> startsWith (fullTranscript st)
              (take (min 50 (length (lastProcessed st))) (lastProcessed st)) \<longrightarrow>
        trim (drop (length (lastProcessed st)) (fullTranscript st))
          = newContent (lastProcessed st) (fullTranscript st))
   \<and> (length (fullTranscript st) < length (lastProcessed st) \<longrightarrow>
        snd (interval_tick now st) = NoCall
        \<and> newContent (lastProcessed st) (fullTranscript st) = trim (fullTranscript st))
   \<and> map_option calls
        (hook_run
           [StartHook 0 True BrowserVoice,
            FeedTranscript 600 ''Hello there, how are you.'',
            RequestEnded 800,
            FeedTranscript 1200 ''Hello there, how are you. good morning'',
            TimeIs 10000]
           hook_init)
        = Some [(600, Started ''Hello there, how are you.''), (3000, Started ''good morning'')]
   \<and> map_option calls
        (hook_run
           [StartHook 0 True BrowserVoice,
            FeedTranscript 600 ''Hello there, how are you.'',
            RequestEnded 800,
            FeedTranscript 1200 ''good morning'',
            TimeIs 10000]
           hook_init)
        = Some [(600, Started ''Hello there, how are you.'')]
   \<and> map_option calls
        (hook_run
           [StartHook 0 True BrowserVoice,
            FeedTranscript 600 ''Hello there,'',
            RequestEnded 800,
            FeedTranscript 1200 ''good morning everyone here'',
            TimeIs 10000]
           hook_init)
        = Some [(600, Started ''Hello there,''), (3000, Started ''everyone here'')]"
proof (intro conjI impI)
  assume "isActiveRef st \<and> useExternalTranscript st"
  then show "feedTranscript now t st
               = processTranscript now t (st\<lparr>lastActivityTime := now\<rparr>)"
    by (simp add: feedTranscript_def)
next
  assume "\<not> (isActiveRef st \<and> useExternalTranscript st)"
  then show "feedTranscript now t st = (st, NoCall)"
    by (auto simp add: feedTranscript_def)
next
  show "snd (processTranscript now t st) \<noteq> NoCall \<longleftrightarrow>
      (\<exists>c \<in> set (newContent (lastProcessed st) t). c \<in> set ''.!?,;:'')
      \<or> 5 \<le> count_words (newContent (lastProcessed st) t)"
    using processTranscript_trigger [of now t st]
    by (simp only: hasCompleteSentence_def list_ex_iff)
next
  assume h: "snd (processTranscript now t st) \<noteq> NoCall"
  from processTranscript_order [OF h]
  show "processTranscript now t st
          = translateText now (newContent (lastProcessed st) t)
              (st\<lparr>fullTranscript := t, sourceText := t, lastProcessed := t\<rparr>)" .
  then show "lastProcessed (fst (processTranscript now t st)) = t"
    by (simp add: translateText_lastProcessed)
next
  assume "t \<noteq> []"
  then show "fullTranscript (fst (processTranscript now t st)) = t"
    by (rule processTranscript_fullTranscript)
next
  assume "snd (processTranscript now t st) = Started text"
  then show "lastProcessedTime (fst (processTranscript now t st)) = now"
    by (rule processTranscript_started_time)
next
  show "snd (interval_tick now st) \<noteq> NoCall \<longleftrightarrow>
        2000 \<le> now - lastProcessedTime st
        \<and> 2 \<le> count_words (trim (drop (length (lastProcessed st)) (fullTranscript st)))"
    using time_trigger_iff [of now st] by (simp only: interval_tick_snd)
next
  assume "snd (interval_tick now st) \<noteq> NoCall"
  then have h: "snd (time_trigger now st) \<noteq> NoCall" by (simp add: interval_tick_snd)
  from time_trigger_order [OF h]
  show eq: "time_trigger now st
          = translateText now (trim (drop (length (lastProcessed st)) (fullTranscript st)))
              (st\<lparr>lastProcessed := fullTranscript st\<rparr>)" .
  show "lastProcessed (fst (interval_tick now st)) = fullTranscript st"
    by (simp add: interval_tick_fst health_check_lastProcessed eq translateText_lastProcessed)
next
  assume "snd (interval_tick now st) = Started text"
  then show "lastProcessedTime (fst (interval_tick now st)) = now"
    by (rule interval_tick_started_time)
next
  assume "length (lastProcessed st) \<le> length (fullTranscript st)
        \<and> startsWith (fullTranscript st)
              (take (min 50 (length (lastProcessed st))) (lastProcessed st))"
  then show "trim (drop (length (lastProcessed st)) (fullTranscript st))
          = newContent (lastProcessed st) (fullTranscript st)"
    by (simp add: newContent_extension)
next
  assume h: "length (fullTranscript st) < length (lastProcessed st)"
  then show "snd (interval_tick now st) = NoCall" by (rule time_trigger_after_reset)
  from h show "newContent (lastProcessed st) (fullTranscript st) = trim (fullTranscript st)"
    by (rule newContent_shorter)
next
  show "map_option calls
        (hook_run
           [StartHook 0 True BrowserVoice,
            FeedTranscript 600 ''Hello there, how are you.'',
            RequestEnded 800,
            FeedTranscript 1200 ''Hello there, how are you. good morning'',
            TimeIs 10000]
           hook_init)
        = Some [(600, Started ''Hello there, how are you.''), (3000, Started ''good morning'')]"
    by (rule timer_fires_on_extension)
next
  show "map_option calls
        (hook_run
           [StartHook 0 True BrowserVoice,
            FeedTranscript 600 ''Hello there, how are you.'',
            RequestEnded 800,
            FeedTranscript 1200 ''good morning'',
            TimeIs 10000]
           hook_init)
        = Some [(600, Started ''Hello there, how are you.'')]"
    by (rule timer_silent_after_reset)
next
  show "map_option calls
        (hook_run
           [StartHook 0 True BrowserVoice,
            FeedTranscript 600 ''Hello there,'',
            RequestEnded 800,
            FeedTranscript 1200 ''good morning everyone here'',
            TimeIs 10000]
           hook_init)
        = Some [(600, Started ''Hello there,''), (3000, Started ''everyone here'')]"
    by (rule timer_wrong_content_after_reset)
qed

theorem segmenter_triggers_witness:
  "snd (feedTranscript 600 ''Hello there, how are you.'' (started 0 True))
     = Started ''Hello there, how are you.''
   \<and> lastProcessed (fst (feedTranscript 600 ''Hello there, how are you.'' (started 0 True)))
       = ''Hello there, how are you.''
   \<and> lastProcessedTime (fst (feedTranscript 600 ''Hello there, how are you.'' (started 0 True)))
       = 600
   \<and> fullTranscript
        (fst (feedTranscript 1200 ''good morning''
               (request_finished 800
                  (fst (feedTranscript 600 ''Hello there, how are you.'' (started 0 True))))))
       = ''good morning''
   \<and> snd (interval_tick 3000
            (fst (feedTranscript 1200 ''good morning''
                   (request_finished 800
                      (fst (feedTranscript 600 ''Hello there, how are you.''
                             (started 0 True)))))))
       = NoCall
   \<and> count_words (newContent ''Hello there, how are you.'' ''good morning'') = 2
   \<and> snd (interval_tick 3000
            (fst (feedTranscript 1200 ''Hello there, how are you. good morning''
                   (request_finished 800
                      (fst (feedTranscript 600 ''Hello there, how are you.''
                             (started 0 True)))))))
       = Started ''good morning''"
proof -
  let ?s0 = "started 0 True"
  let ?first = "''Hello there, how are you.''"
  let ?s1 = "request_finished 800 (fst (feedTranscript 600 ?first ?s0))"
  let ?s2 = "fst (feedTranscript 1200 ''good morning'' ?s1)"
  let ?s3 = "fst (feedTranscript 1200 ''Hello there, how are you. good morning'' ?s1)"
  have act0: "isActiveRef ?s0 \<and> useExternalTranscript ?s0" by (simp add: started_def)
  from act0 segmenter_triggers [of ?s0 600 ?first]
  have feed0: "feedTranscript 600 ?first ?s0
                 = processTranscript 600 ?first (?s0\<lparr>lastActivityTime := 600\<rparr>)"
    by blast
  have a: "snd (feedTranscript 600 ?first ?s0) = Started ?first" by code_simp
  with feed0
  have a1: "snd (processTranscript 600 ?first (?s0\<lparr>lastActivityTime := 600\<rparr>))
              = Started ?first" by simp
  then have a0: "snd (processTranscript 600 ?first (?s0\<lparr>lastActivityTime := 600\<rparr>))
              \<noteq> NoCall" by simp
  note t1 = segmenter_triggers [of "?s0\<lparr>lastActivityTime := 600\<rparr>" 600 ?first ?first]
  from a0 t1
  have "lastProcessed (fst (processTranscript 600 ?first (?s0\<lparr>lastActivityTime := 600\<rparr>)))
          = ?first" by blast
  with feed0 have b: "lastProcessed (fst (feedTranscript 600 ?first ?s0)) = ?first" by simp
  from a1 t1
  have "lastProcessedTime (fst (processTranscript 600 ?first (?s0\<lparr>lastActivityTime := 600\<rparr>)))
          = 600" by blast
  with feed0 have c: "lastProcessedTime (fst (feedTranscript 600 ?first ?s0)) = 600" by simp
  have act: "isActiveRef ?s1 \<and> useExternalTranscript ?s1" by code_simp
  from act segmenter_triggers [of ?s1 1200 "''good morning''"]
  have feed1: "feedTranscript 1200 ''good morning'' ?s1
                 = processTranscript 1200 ''good morning'' (?s1\<lparr>lastActivityTime := 1200\<rparr>)"
    by blast
  have ne: "''good morning'' \<noteq> []" by simp
  from ne segmenter_triggers [of "?s1\<lparr>lastActivityTime := 1200\<rparr>" 1200 "''good morning''"]
  have "fullTranscript (fst (processTranscript 1200 ''good morning''
                               (?s1\<lparr>lastActivityTime := 1200\<rparr>))) = ''good morning''"
    by blast
  with feed1 have d: "fullTranscript ?s2 = ''good morning''" by simp
  have lp2: "lastProcessed ?s2 = ?first" by code_simp
  from d lp2 have short: "length (fullTranscript ?s2) < length (lastProcessed ?s2)" by simp
  from short segmenter_triggers [of ?s2 3000]
  have e: "snd (interval_tick 3000 ?s2) = NoCall" by blast
  have f: "count_words (newContent ?first ''good morning'') = 2" by code_simp
  have g: "snd (interval_tick 3000 ?s3) = Started ''good morning''" by code_simp
  from a b c d e f g show ?thesis by blast
qed

subsection \<open>Watermark diffing\<close>

text \<open>
  C5, as the code has it. The new content is the whole transcript, trimmed, when the
  transcript is shorter than the watermark or does not start with the first
  \<open>min 50 (length w)\<close> characters of the watermark; otherwise it is the transcript beyond
  the first \<open>length w\<close> characters, trimmed as well. It is the text that
  \<open>processTranscript\<close> hands to \<open>translateText\<close>.
\<close>

theorem newContent_reset_or_extension:
  "(length t < length w \<or> \<not> startsWith t (take (min 50 (length w)) w)
      \<longrightarrow> newContent w t = trim t)
   \<and> (length w \<le> length t \<and> startsWith t (take (min 50 (length w)) w)
      \<longrightarrow> newContent w t = trim (drop (length w) t))
   \<and> (startsWith t (take (min 50 (length w)) w)
      \<longleftrightarrow> take (min 50 (length w)) t = take (min 50 (length w)) w)
   \<and> (snd (processTranscript now t st) \<noteq> NoCall \<longrightarrow>
        snd (processTranscript now t st) = Dropped (newContent (lastProcessed st) t)
        \<or> snd (processTranscript now t st) = Started (newContent (lastProcessed st) t))"
proof (intro conjI impI)
  assume "length t < length w \<or> \<not> startsWith t (take (min 50 (length w)) w)"
  then show "newContent w t = trim t" by (auto simp add: newContent_def)
next
  assume "length w \<le> length t \<and> startsWith t (take (min 50 (length w)) w)"
  then show "newContent w t = trim (drop (length w) t)" by (auto simp add: newContent_def)
next
  show "startsWith t (take (min 50 (length w)) w)
      \<longleftrightarrow> take (min 50 (length w)) t = take (min 50 (length w)) w"
    by (simp add: startsWith_def min_def)
next
  assume h: "snd (processTranscript now t st) \<noteq> NoCall"
  from processTranscript_order [OF h] translateText_outcome
  show "snd (processTranscript now t st) = Dropped (newContent (lastProcessed st) t)
        \<or> snd (processTranscript now t st) = Started (newContent (lastProcessed st) t)"
    by simp
qed

theorem newContent_reset_or_extension_witness:
  "newContent ''hello'' ''hello world'' = trim (drop (length ''hello'') ''hello world'')
   \<and> newContent ''hello world'' ''new'' = trim ''new''
   \<and> newContent ''hello'' ''help me'' = trim ''help me''
   \<and> (snd (processTranscript 5 ''Hello there,'' (started 0 True))
         = Dropped (newContent (lastProcessed (started 0 True)) ''Hello there,'')
       \<or> snd (processTranscript 5 ''Hello there,'' (started 0 True))
         = Started (newContent (lastProcessed (started 0 True)) ''Hello there,''))"
proof -
  have a: "length ''hello'' \<le> length ''hello world''
      \<and> startsWith ''hello world'' (take (min 50 (length ''hello'')) ''hello'')"
    by (simp add: startsWith_def)
  have b: "length ''new'' < length ''hello world''" by simp
  have c: "\<not> startsWith ''help me'' (take (min 50 (length ''hello'')) ''hello'')"
    by (simp add: startsWith_def)
  have "snd (processTranscript 5 ''Hello there,'' (started 0 True)) = Started ''Hello there,''"
    by code_simp
  then have d: "snd (processTranscript 5 ''Hello there,'' (started 0 True)) \<noteq> NoCall"
    by simp
  from a newContent_reset_or_extension [of "''hello world''" "''hello''"]
  have a': "newContent ''hello'' ''hello world'' = trim (drop (length ''hello'') ''hello world'')"
    by blast
  from b newContent_reset_or_extension [of "''new''" "''hello world''"]
  have b': "newContent ''hello world'' ''new'' = trim ''new''"
    by blast
  from c newContent_reset_or_extension [of "''help me''" "''hello''"]
  have c': "newContent ''hello'' ''help me'' = trim ''help me''"
    by blast
  from d newContent_reset_or_extension [of "''Hello there,''" "[]" 5 "started 0 True"]
  have d': "snd (processTranscript 5 ''Hello there,'' (started 0 True))
         = Dropped (newContent (lastProcessed (started 0 True)) ''Hello there,'')
       \<or> snd (processTranscript 5 ''Hello there,'' (started 0 True))
         = Started (newContent (lastProcessed (started 0 True)) ''Hello there,'')"
    by blast
  from a' b' c' d' show ?thesis by blast
qed

text \<open>In the extension case the new content is not the plain suffix: the transcript
  \<open>hello world\<close> extends the watermark \<open>hello\<close>, the suffix beyond the watermark starts
  with a space, and the new content is \<open>world\<close>.\<close>

theorem newContent_suffix_counterexample:
  "length ''hello'' \<le> length ''hello world''
   \<and> startsWith ''hello world'' (take (min 50 (length ''hello'')) ''hello'')
   \<and> drop (length ''hello'') ''hello world'' = '' world''
   \<and> newContent ''hello'' ''hello world'' = ''world''
   \<and> newContent ''hello'' ''hello world'' \<noteq> drop (length ''hello'') ''hello world''"
  by code_simp

subsection \<open>In-flight discipline\<close>

text \<open>The check at the head of \<open>translateText\<close>: with the flag set, a call on non-blank
  text returns at once when the recorded activity is at most 10000 ms old, and clears the
  flag and goes on otherwise.\<close>

lemma translateText_check:
  "(trim text \<noteq> [] \<and> isTranslating st \<and> now - lastActivityTime st \<le> 10000
      \<longrightarrow> translateText now text st = (st, Dropped text))
   \<and> (trim text \<noteq> [] \<and> isTranslating st \<and> now - lastActivityTime st > 10000
      \<longrightarrow> translateText now text st = begin_request now text (st\<lparr>isTranslating := False\<rparr>)
        \<and> snd (translateText now text st) = Started text
        \<and> isTranslating (fst (translateText now text st)))
   \<and> (snd (translateText now text st) = Started text'
      \<longrightarrow> text' = text \<and> (\<not> isTranslating st \<or> now - lastActivityTime st > 10000))"
  by (auto simp add: translateText_def begin_request_def stuckThreshold_def Let_def
      split: if_splits)

lemma translateText_dropped:
  "snd (translateText now text st) = Dropped c \<Longrightarrow> fst (translateText now text st) = st"
  by (auto simp add: translateText_def begin_request_def Let_def split: if_splits)

text \<open>\<open>feedTranscript\<close> and \<open>onresult\<close> record activity before they process the
  transcript, so a trigger that arrives through them while a request is marked in flight
  never starts a request.\<close>

lemma onresult_while_in_flight:
  "isTranslating st \<Longrightarrow>
     snd (processTranscript now t (st\<lparr>lastActivityTime := now\<rparr>)) \<noteq> Started text"
  by (auto simp add: processTranscript_def translateText_def Let_def stuckThreshold_def)

lemma feedTranscript_while_in_flight:
  "isTranslating st \<Longrightarrow> snd (feedTranscript now t st) \<noteq> Started text"
  using onresult_while_in_flight [of st now t "text"] by (simp add: feedTranscript_def)

lemma interval_tick_while_in_flight:
  "isTranslating st \<Longrightarrow> now - lastActivityTime st \<le> 10000 \<Longrightarrow>
     snd (interval_tick now st) \<noteq> Started text"
  by (auto simp add: interval_tick_snd time_trigger_def translateText_def Let_def
      stuckThreshold_def)

lemma feedTranscript_dropped:
  assumes "snd (feedTranscript now t st) = Dropped c"
  shows "fst (feedTranscript now t st)
           = st\<lparr>lastActivityTime := now, fullTranscript := t, sourceText := t,
                 lastProcessed := t\<rparr>"
    and "snd (feedTranscript later t (fst (feedTranscript now t st))) = NoCall"
proof -
  let ?st = "st\<lparr>lastActivityTime := now\<rparr>"
  from assms have act: "isActiveRef st \<and> useExternalTranscript st"
    by (auto simp add: feedTranscript_def split: if_splits)
  then have feed: "feedTranscript now t st = processTranscript now t ?st"
    by (simp add: feedTranscript_def)
  with assms have d: "snd (processTranscript now t ?st) = Dropped c" by simp
  then have h: "snd (processTranscript now t ?st) \<noteq> NoCall" by simp
  note eq = processTranscript_order [OF h]
  from d eq
  have "snd (translateText now (newContent (lastProcessed ?st) t)
               (?st\<lparr>fullTranscript := t, sourceText := t, lastProcessed := t\<rparr>)) = Dropped c"
    by simp
  from translateText_dropped [OF this] eq feed
  show first: "fst (feedTranscript now t st)
           = st\<lparr>lastActivityTime := now, fullTranscript := t, sourceText := t,
                 lastProcessed := t\<rparr>"
    by simp
  have "snd (feedTranscript later t
               (st\<lparr>lastActivityTime := now, fullTranscript := t, sourceText := t,
                    lastProcessed := t\<rparr>)) = NoCall"
    using act by (simp add: feedTranscript_def processTranscript_def Let_def)
  then show "snd (feedTranscript later t (fst (feedTranscript now t st))) = NoCall"
    by (simp only: first)
qed

text \<open>Events that cannot happen, and transcripts that are not taken: a request cannot end
  or deliver a chunk when none is pending, an event cannot carry an earlier time than the
  one before it, and the hook's own recognition delivers no result when the transcript comes
  from outside. \<open>feedTranscript\<close> does nothing before \<open>start\<close>, after \<open>stop\<close>, and when
  the hook listens by itself; after \<open>stop\<close> the interval callback no longer runs.\<close>

lemma hook_run_disabled:
  "hook_run [RequestEnded 100] hook_init = None
   \<and> hook_run [ChunkArrived 100] hook_init = None
   \<and> hook_run [StartHook 1000 True BrowserVoice, FeedTranscript 500 ''Hello there,''] hook_init
       = None
   \<and> hook_run [StartHook 0 True BrowserVoice, RecognitionResult 600 ''Hello there,''] hook_init
       = None
   \<and> map_option calls (hook_run [FeedTranscript 600 ''Hello there,''] hook_init) = Some []
   \<and> map_option calls
        (hook_run [StartHook 0 False BrowserVoice, FeedTranscript 600 ''Hello there,'']
           hook_init) = Some []
   \<and> map_option calls
        (hook_run [StartHook 0 False BrowserVoice, RecognitionResult 600 ''Hello there,'']
           hook_init) = Some [(600, Started ''Hello there,'')]
   \<and> map_option calls
        (hook_run
           [StartHook 0 True BrowserVoice, FeedTranscript 600 ''Hello there'', StopHook 700,
            FeedTranscript 800 ''Hello there, friend'', TimeIs 5000]
           hook_init) = Some []
   \<and> map_option calls
        (hook_run
           [StartHook 0 True BrowserVoice, FeedTranscript 600 ''Hello there'', TimeIs 5000]
           hook_init) = Some [(2000, Started ''Hello there'')]"
  by code_simp

lemma hung_request_blocks:
  "map_option (\<lambda>st. (calls st, pendingRequests st))
     (hook_run
        [StartHook 0 True BrowserVoice,
         FeedTranscript 1100 ''Hello there,'',
         FeedTranscript 4700 ''Hello there, how are'',
         FeedTranscript 21100 ''Hello there, how are you today my good friend'',
         TimeIs 30000]
        hook_init)
     = Some ([(1100, Started ''Hello there,''),
              (5000, Dropped ''how are''),
              (21100, Dropped ''you today my good friend'')], 1)"
  by code_simp

lemma restart_two_requests:
  "map_option (\<lambda>st. (calls st, pendingRequests st))
     (hook_run
        [StartHook 0 True BrowserVoice,
         FeedTranscript 1100 ''Hello there,'',
         StopHook 1600,
         StartHook 1700 True BrowserVoice,
         FeedTranscript 2100 ''Hello there, fine day.'']
        hook_init)
     = Some ([(1100, Started ''Hello there,''),
              (2100, Started ''Hello there, fine day.'')], 2)"
  by code_simp

lemma stale_finally_third_request:
  "map_option (\<lambda>st. (calls st, pendingRequests st))
     (hook_run
        [StartHook 0 True BrowserVoice,
         FeedTranscript 1100 ''Hello there,'',
         StopHook 1600,
         StartHook 1700 True BrowserVoice,
         FeedTranscript 2100 ''Hello there, fine day.'',
         RequestEnded 2600,
         FeedTranscript 3100 ''Hello there, fine day. How are you?'']
        hook_init)
     = Some ([(1100, Started ''Hello there,''),
              (2100, Started ''Hello there, fine day.''),
              (3100, Started ''How are you?'')], 2)"
  by code_simp

text \<open>
  C6. What the hook does about requests in flight. A trigger that arrives through
  \<open>feedTranscript\<close> or \<open>onresult\<close> while the flag \<open>isTranslating\<close> is set never starts a
  request, however old the request is, because both record activity before the check; a
  trigger of the interval callback does not start one while the recorded activity is at most
  10000 ms old. A call that is dropped leaves the watermark at the transcript and queues
  nothing: feeding the same transcript again makes no call. So a request that hangs is never
  force-cleared by what is fed: with a request sent at 1100 ms and never answered, the
  content fed at 4700 ms is dropped by the interval callback and the content fed at
  21100 ms, 20 s after the request started, is dropped as well. And more than one request
  can be in flight: \<open>stop\<close> clears the flag without ending the request, so after \<open>stop\<close>
  and \<open>start\<close> the next trigger sends a second request while the first is pending; when
  the first ends, its \<open>finally\<close> block clears the flag of the second, and a third is sent.
\<close>

theorem single_in_flight:
  "(isTranslating st \<longrightarrow> snd (feedTranscript now t st) \<noteq> Started text)
   \<and> (isTranslating st \<longrightarrow>
        snd (processTranscript now t (st\<lparr>lastActivityTime := now\<rparr>)) \<noteq> Started text)
   \<and> (isTranslating st \<and> now - lastActivityTime st \<le> 10000 \<longrightarrow>
        snd (interval_tick now st) \<noteq> Started text)
   \<and> (snd (feedTranscript now t st) = Dropped text \<longrightarrow>
        fst (feedTranscript now t st)
          = st\<lparr>lastActivityTime := now, fullTranscript := t, sourceText := t,
                lastProcessed := t\<rparr>
        \<and> snd (feedTranscript later t (fst (feedTranscript now t st))) = NoCall)
   \<and> map_option (\<lambda>st. (calls st, pendingRequests st))
        (hook_run
           [StartHook 0 True BrowserVoice,
            FeedTranscript 1100 ''Hello there,'',
            FeedTranscript 4700 ''Hello there, how are'',
            FeedTranscript 21100 ''Hello there, how are you today my good friend'',
            TimeIs 30000]
           hook_init)
        = Some ([(1100, Started ''Hello there,''),
                 (5000, Dropped ''how are''),
                 (21100, Dropped ''you today my good friend'')], 1)
   \<and> map_option (\<lambda>st. (calls st, pendingRequests st))
        (hook_run
           [StartHook 0 True BrowserVoice,
            FeedTranscript 1100 ''Hello there,'',
            StopHook 1600,
            StartHook 1700 True BrowserVoice,
            FeedTranscript 2100 ''Hello there, fine day.'']
           hook_init)
        = Some ([(1100, Started ''Hello there,''),
                 (2100, Started ''Hello there, fine day.'')], 2)
   \<and> map_option (\<lambda>st. (calls st, pendingRequests st))
        (hook_run
           [StartHook 0 True BrowserVoice,
            FeedTranscript 1100 ''Hello there,'',
            StopHook 1600,
            StartHook 1700 True BrowserVoice,
            FeedTranscript 2100 ''Hello there, fine day.'',
            RequestEnded 2600,
            FeedTranscript 3100 ''Hello there, fine day. How are you?'']
           hook_init)
        = Some ([(1100, Started ''Hello there,''),
                 (2100, Started ''Hello there, fine day.''),
                 (3100, Started ''How are you?'')], 2)"
proof (intro conjI impI)
  assume "isTranslating st"
  then show "snd (feedTranscript now t st) \<noteq> Started text"
    by (rule feedTranscript_while_in_flight)
next
  assume "isTranslating st"
  then show "snd (processTranscript now t (st\<lparr>lastActivityTime := now\<rparr>)) \<noteq> Started text"
    by (rule onresult_while_in_flight)
next
  assume "isTranslating st \<and> now - lastActivityTime st \<le> 10000"
  then show "snd (interval_tick now st) \<noteq> Started text"
    by (simp add: interval_tick_while_in_flight)
next
  assume d: "snd (feedTranscript now t st) = Dropped text"
  from feedTranscript_dropped(1) [OF d]
  show "fst (feedTranscript now t st)
          = st\<lparr>lastActivityTime := now, fullTranscript := t, sourceText := t,
                lastProcessed := t\<rparr>" .
  from feedTranscript_dropped(2) [OF d]
  show "snd (feedTranscript later t (fst (feedTranscript now t st))) = NoCall" .
next
  show "map_option (\<lambda>st. (calls st, pendingRequests st))
        (hook_run
           [StartHook 0 True BrowserVoice,
            FeedTranscript 1100 ''Hello there,'',
            FeedTranscript 4700 ''Hello there, how are'',
            FeedTranscript 21100 ''Hello there, how are you today my good friend'',
            TimeIs 30000]
           hook_init)
        = Some ([(1100, Started ''Hello there,''),
                 (5000, Dropped ''how are''),
                 (21100, Dropped ''you today my good friend'')], 1)"
    by (rule hung_request_blocks)
next
  show "map_option (\<lambda>st. (calls st, pendingRequests st))
        (hook_run
           [StartHook 0 True BrowserVoice,
            FeedTranscript 1100 ''Hello there,'',
            StopHook 1600,
            StartHook 1700 True BrowserVoice,
            FeedTranscript 2100 ''Hello there, fine day.'']
           hook_init)
        = Some ([(1100, Started ''Hello there,''),
                 (2100, Started ''Hello there, fine day.'')], 2)"
    by (rule restart_two_requests)
next
  show "map_option (\<lambda>st. (calls st, pendingRequests st))
        (hook_run
           [StartHook 0 True BrowserVoice,
            FeedTranscript 1100 ''Hello there,'',
            StopHook 1600,
            StartHook 1700 True BrowserVoice,
            FeedTranscript 2100 ''Hello there, fine day.'',
            RequestEnded 2600,
            FeedTranscript 3100 ''Hello there, fine day. How are you?'']
           hook_init)
        = Some ([(1100, Started ''Hello there,''),
                 (2100, Started ''Hello there, fine day.''),
                 (3100, Started ''How are you?'')], 2)"
    by (rule stale_finally_third_request)
qed

theorem single_in_flight_witness:
  "snd (feedTranscript 1100 ''Hello there,'' (started 0 True)) = Started ''Hello there,''
   \<and> isTranslating (fst (feedTranscript 1100 ''Hello there,'' (started 0 True)))
   \<and> snd (feedTranscript 21100 ''Hello there, how are you today friend''
            (fst (feedTranscript 1100 ''Hello there,'' (started 0 True))))
       = Dropped ''how are you today friend''
   \<and> lastProcessed
        (fst (feedTranscript 21100 ''Hello there, how are you today friend''
               (fst (feedTranscript 1100 ''Hello there,'' (started 0 True)))))
       = ''Hello there, how are you today friend''
   \<and> snd (feedTranscript 21600 ''Hello there, how are you today friend''
            (fst (feedTranscript 21100 ''Hello there, how are you today friend''
                   (fst (feedTranscript 1100 ''Hello there,'' (started 0 True))))))
       = NoCall"
proof -
  let ?s0 = "started 0 True"
  let ?s1 = "fst (feedTranscript 1100 ''Hello there,'' ?s0)"
  let ?t = "''Hello there, how are you today friend''"
  let ?c = "''how are you today friend''"
  have a: "snd (feedTranscript 1100 ''Hello there,'' ?s0) = Started ''Hello there,''"
    by code_simp
  have b: "isTranslating ?s1" by code_simp
  note inst = single_in_flight [of ?s1 21100 ?t ?c 21600]
  have "snd (feedTranscript 21100 ?t ?s1) = Dropped ?c
        \<or> snd (feedTranscript 21100 ?t ?s1) = Started ?c"
    by code_simp
  moreover from b inst have "snd (feedTranscript 21100 ?t ?s1) \<noteq> Started ?c" by blast
  ultimately have c: "snd (feedTranscript 21100 ?t ?s1) = Dropped ?c" by blast
  from c inst
  have d: "fst (feedTranscript 21100 ?t ?s1)
             = ?s1\<lparr>lastActivityTime := 21100, fullTranscript := ?t, sourceText := ?t,
                    lastProcessed := ?t\<rparr>"
    and e: "snd (feedTranscript 21600 ?t (fst (feedTranscript 21100 ?t ?s1))) = NoCall"
    by blast+
  from d have d': "lastProcessed (fst (feedTranscript 21100 ?t ?s1)) = ?t" by simp
  from a b c d' e show ?thesis by blast
qed

section \<open>Properties of the playback queue\<close>

lemma playAudioChunk_next:
  "nextPlayTime (fst (playAudioChunk now d st)) = max now (nextPlayTime st) + d"
  by (simp add: playAudioChunk_def Let_def)

lemma enqueue_all_length: "length (snd (enqueue_all cs st)) = length cs"
  by (induction cs st rule: enqueue_all.induct) (auto simp add: Let_def split: prod.splits)

lemma enqueue_all_head:
  "snd (enqueue_all ((now, d) # cs) st) ! 0 = max now (nextPlayTime st)"
  by (simp add: playAudioChunk_def Let_def split: prod.splits)

lemma enqueue_all_adjacent:
  "Suc k < length cs \<Longrightarrow>
     (let starts = snd (enqueue_all cs st) in
        starts ! Suc k = max (fst (cs ! Suc k)) (starts ! k + snd (cs ! k)))"
proof (induction cs st arbitrary: k rule: enqueue_all.induct)
  case (1 st)
  then show ?case by simp
next
  case (2 now d cs st)
  obtain st1 s where p: "playAudioChunk now d st = (st1, s)" by (cases "playAudioChunk now d st")
  then have s: "s = max now (nextPlayTime st)" and n: "nextPlayTime st1 = s + d"
    by (auto simp add: playAudioChunk_def Let_def)
  obtain st2 starts where e: "enqueue_all cs st1 = (st2, starts)" by (cases "enqueue_all cs st1")
  show ?case
  proof (cases k)
    case 0
    with "2.prems" obtain now' d' cs' where cs: "cs = (now', d') # cs'" by (cases cs) auto
    with e enqueue_all_head [of now' d' cs' st1] have "starts ! 0 = max now' (nextPlayTime st1)"
      by simp
    with 0 p e cs n show ?thesis by (simp add: Let_def)
  next
    case (Suc j)
    with "2.prems" have "Suc j < length cs" by simp
    from "2.IH" [OF p [symmetric] refl this] e Suc p show ?thesis by (simp add: Let_def)
  qed
qed

lemma three_chunks:
  assumes "nextPlayTime st \<le> t0" "t0 \<le> t1" "t1 \<le> t0 + 1" "t1 \<le> t2" "t2 \<le> t0 + 1.5"
  shows "snd (enqueue_all [(t0, 1), (t1, 0.5), (t2, 0.2)] st) = [t0, t0 + 1, t0 + 1.5]"
    and "nextPlayTime (fst (enqueue_all [(t0, 1), (t1, 0.5), (t2, 0.2)] st)) = t0 + 1.7"
  using assms by (simp_all add: playAudioChunk_def Let_def max_def)

text \<open>
  C7. Each chunk starts at the later of the current time and \<open>nextPlayTime\<close>, and
  \<open>nextPlayTime\<close> becomes that start plus the chunk's duration; \<open>nextPlayTime\<close> is 0
  at first. Three chunks of 1.0 s, 0.5 s and 0.2 s that arrive from \<open>t0\<close> on, each before
  the one before it has finished, start at \<open>t0\<close>, \<open>t0 + 1\<close> and \<open>t0 + 1.5\<close>. For any
  chunks, a chunk starts no earlier than the end of the one before it (after its start when
  that one has a positive duration), and exactly at its end when it arrived by then.
\<close>

theorem playback_schedule:
  "playAudioChunk now d st
     = (st\<lparr>playbackContext := True, nextPlayTime := max now (nextPlayTime st) + d\<rparr>,
        max now (nextPlayTime st))
   \<and> nextPlayTime playback_init = 0
   \<and> (nextPlayTime st \<le> t0 \<and> t0 \<le> t1 \<and> t1 \<le> t0 + 1 \<and> t1 \<le> t2 \<and> t2 \<le> t0 + 1.5 \<longrightarrow>
        snd (enqueue_all [(t0, 1), (t1, 0.5), (t2, 0.2)] st) = [t0, t0 + 1, t0 + 1.5])
   \<and> (Suc k < length cs \<longrightarrow>
        (let starts = snd (enqueue_all cs st) in
           starts ! k + snd (cs ! k) \<le> starts ! Suc k
           \<and> (0 < snd (cs ! k) \<longrightarrow> starts ! k < starts ! Suc k)
           \<and> (fst (cs ! Suc k) \<le> starts ! k + snd (cs ! k)
                \<longrightarrow> starts ! Suc k = starts ! k + snd (cs ! k))))"
proof (intro conjI impI)
  show "playAudioChunk now d st
     = (st\<lparr>playbackContext := True, nextPlayTime := max now (nextPlayTime st) + d\<rparr>,
        max now (nextPlayTime st))"
    by (simp add: playAudioChunk_def Let_def)
next
  show "nextPlayTime playback_init = 0" by (simp add: playback_init_def)
next
  assume "nextPlayTime st \<le> t0 \<and> t0 \<le> t1 \<and> t1 \<le> t0 + 1 \<and> t1 \<le> t2 \<and> t2 \<le> t0 + 1.5"
  then show "snd (enqueue_all [(t0, 1), (t1, 0.5), (t2, 0.2)] st) = [t0, t0 + 1, t0 + 1.5]"
    using three_chunks(1) [of st t0 t1 t2] by blast
next
  assume "Suc k < length cs"
  from enqueue_all_adjacent [OF this, of st]
  show "let starts = snd (enqueue_all cs st) in
           starts ! k + snd (cs ! k) \<le> starts ! Suc k
           \<and> (0 < snd (cs ! k) \<longrightarrow> starts ! k < starts ! Suc k)
           \<and> (fst (cs ! Suc k) \<le> starts ! k + snd (cs ! k)
                \<longrightarrow> starts ! Suc k = starts ! k + snd (cs ! k))"
    by (auto simp add: Let_def max_def)
qed

theorem playback_schedule_witness:
  "snd (enqueue_all [(2, 1), (2, 0.5), (2, 0.2)] playback_init) = [2, 2 + 1, 2 + 1.5]
   \<and> snd (enqueue_all [(2, 1), (2, 0.5), (2, 0.2)] playback_init) ! 0
       < snd (enqueue_all [(2, 1), (2, 0.5), (2, 0.2)] playback_init) ! Suc 0
   \<and> snd (enqueue_all [(2, 1), (2, 0.5), (2, 0.2)] playback_init) ! Suc 0
       = snd (enqueue_all [(2, 1), (2, 0.5), (2, 0.2)] playback_init) ! 0 + 1
   \<and> snd (enqueue_all [(2, 1), (2, 0.5), (9, 0.2)] playback_init) ! 1 + 0.5
       \<le> snd (enqueue_all [(2, 1), (2, 0.5), (9, 0.2)] playback_init) ! Suc 1"
proof -
  let ?cs = "[(2::real, 1::real), (2, 0.5), (2, 0.2)]"
  let ?cs' = "[(2::real, 1::real), (2, 0.5), (9, 0.2)]"
  have a: "nextPlayTime playback_init \<le> 2 \<and> (2::real) \<le> 2 \<and> (2::real) \<le> 2 + 1
      \<and> (2::real) \<le> 2 \<and> (2::real) \<le> 2 + 1.5"
    by (simp add: playback_init_def)
  from a playback_schedule [of _ _ playback_init 2 2 2]
  have a': "snd (enqueue_all ?cs playback_init) = [2, 2 + 1, 2 + 1.5]"
    by blast
  have b: "Suc 0 < length ?cs" by simp
  have pos: "0 < snd (?cs ! 0)" by simp
  have d0: "snd (?cs ! 0) = 1" by simp
  have fed: "fst (?cs ! Suc 0) \<le> snd (enqueue_all ?cs playback_init) ! 0 + snd (?cs ! 0)"
    using a' by simp
  note t = playback_schedule [of _ _ playback_init _ _ _ 0 ?cs]
  from b t have b1: "snd (enqueue_all ?cs playback_init) ! 0
       < snd (enqueue_all ?cs playback_init) ! Suc 0"
    using pos by (simp only: Let_def)
  from b t have "snd (enqueue_all ?cs playback_init) ! Suc 0
       = snd (enqueue_all ?cs playback_init) ! 0 + snd (?cs ! 0)"
    using fed by (simp only: Let_def)
  with d0 have b2: "snd (enqueue_all ?cs playback_init) ! Suc 0
       = snd (enqueue_all ?cs playback_init) ! 0 + 1" by (simp only:)
  have c: "Suc 1 < length ?cs'" by simp
  have d1: "snd (?cs' ! 1) = 0.5" by simp
  from c playback_schedule [of _ _ playback_init _ _ _ 1 ?cs']
  have "snd (enqueue_all ?cs' playback_init) ! 1 + snd (?cs' ! 1)
       \<le> snd (enqueue_all ?cs' playback_init) ! Suc 1"
    by (simp only: Let_def)
  with d1 have c': "snd (enqueue_all ?cs' playback_init) ! 1 + 0.5
       \<le> snd (enqueue_all ?cs' playback_init) ! Suc 1" by (simp only:)
  from a' b1 b2 c' show ?thesis by blast
qed

section \<open>Properties of the PCM encoder\<close>













section \<open>Properties of the pipeline hooks\<close>

lemma stopLocalPipeline_released:
  "pipelineWsRef (stopLocalPipeline st) = None
   \<and> \<not> pipelineMediaStreamRef (stopLocalPipeline st)
   \<and> \<not> pipelineAudioContextRef (stopLocalPipeline st)
   \<and> \<not> playbackContext (stopLocalPipeline st)
   \<and> nextPlayTime (stopLocalPipeline st) = 0
   \<and> \<not> pipelineRecognitionRef (stopLocalPipeline st)
   \<and> \<not> isLocalPipelineActive (stopLocalPipeline st)
   \<and> \<not> isLocalPipelineSpeaking (stopLocalPipeline st)"
  by (simp add: stopLocalPipeline_def Let_def split: option.splits)

lemma stopLocalPipeline_idem: "stopLocalPipeline (stopLocalPipeline st) = stopLocalPipeline st"
  by (simp add: stopLocalPipeline_def Let_def split: option.splits)

lemma stopLocalPipeline_init: "stopLocalPipeline pipeline_init = pipeline_init"
  by (simp add: stopLocalPipeline_def pipeline_init_def Let_def)

lemma disconnectPersonaPlex_released:
  "personaWsRef (disconnectPersonaPlex st) = None
   \<and> \<not> personaMediaStreamRef (disconnectPersonaPlex st)
   \<and> \<not> personaAudioContextRef (disconnectPersonaPlex st)
   \<and> \<not> playbackContext (disconnectPersonaPlex st)
   \<and> nextPlayTime (disconnectPersonaPlex st) = 0
   \<and> \<not> isPersonaPlexConnected (disconnectPersonaPlex st)
   \<and> \<not> isPersonaPlexConnecting (disconnectPersonaPlex st)"
  by (simp add: disconnectPersonaPlex_def Let_def split: option.splits)

lemma disconnectPersonaPlex_idem:
  "disconnectPersonaPlex (disconnectPersonaPlex st) = disconnectPersonaPlex st"
  by (simp add: disconnectPersonaPlex_def Let_def split: option.splits)

lemma disconnectPersonaPlex_init: "disconnectPersonaPlex personaplex_init = personaplex_init"
  by (simp add: disconnectPersonaPlex_def personaplex_init_def Let_def)

lemma disconnectLive_released:
  "sessionRef (disconnectLive st) = None
   \<and> \<not> liveMediaStreamRef (disconnectLive st)
   \<and> \<not> liveAudioContextRef (disconnectLive st)
   \<and> \<not> playbackContext (disconnectLive st)
   \<and> nextPlayTime (disconnectLive st) = 0
   \<and> \<not> isLiveConnected (disconnectLive st)
   \<and> \<not> isLiveConnecting (disconnectLive st)"
  by (simp add: disconnectLive_def Let_def split: option.splits)

lemma disconnectLive_idem: "disconnectLive (disconnectLive st) = disconnectLive st"
  by (simp add: disconnectLive_def Let_def split: option.splits)

lemma disconnectLive_init: "disconnectLive live_init = live_init"
  by (simp add: disconnectLive_def live_init_def Let_def)

lemma stopTextTranslation_released:
  "\<not> textRecognitionRef (stopTextTranslation st)
   \<and> \<not> isActiveRef (refs (stopTextTranslation st))
   \<and> ttsQueue (refs (stopTextTranslation st)) = []
   \<and> \<not> isTextActive (stopTextTranslation st)
   \<and> \<not> isTextSpeaking (stopTextTranslation st)"
  by (simp add: stopTextTranslation_def)

lemma stopTextTranslation_idem:
  "stopTextTranslation (stopTextTranslation st) = stopTextTranslation st"
  by (simp add: stopTextTranslation_def)

lemma stopTextTranslation_init: "stopTextTranslation text_init = text_init"
  by (simp add: stopTextTranslation_def text_init_def)

lemma send_stop_and_close_cases:
  "ws_send CONNECTING = Inl InvalidStateError
   \<and> send_stop_and_close CONNECTING = CONNECTING
   \<and> send_stop_and_close OPEN = CLOSING"
  by (simp add: ws_send_def send_stop_and_close_def try_catch_def ws_close_def)

text \<open>
  C9. For the local pipeline, PersonaPlex, the live hook and the text hook, from every
  state: after the teardown the socket or session ref, the media stream ref and both audio
  context refs are \<open>null\<close>, \<open>nextPlayTime\<close> is 0 and the connected, connecting, active
  and speaking flags are false (each hook for the refs and flags it has); a second teardown
  changes nothing; and a teardown before any start leaves the initial state as it is. The
  one call of a teardown that can throw, \<open>send\<close> on a socket that is still connecting,
  sits in a \<open>try\<close> block whose \<open>catch\<close> swallows the error.
\<close>

theorem teardown_idempotent:
  "(pipelineWsRef (stopLocalPipeline p) = None
      \<and> \<not> pipelineMediaStreamRef (stopLocalPipeline p)
      \<and> \<not> pipelineAudioContextRef (stopLocalPipeline p)
      \<and> \<not> playbackContext (stopLocalPipeline p)
      \<and> nextPlayTime (stopLocalPipeline p) = 0
      \<and> \<not> isLocalPipelineActive (stopLocalPipeline p)
      \<and> \<not> isLocalPipelineSpeaking (stopLocalPipeline p)
      \<and> stopLocalPipeline (stopLocalPipeline p) = stopLocalPipeline p
      \<and> stopLocalPipeline pipeline_init = pipeline_init)
   \<and> (personaWsRef (disconnectPersonaPlex q) = None
      \<and> \<not> personaMediaStreamRef (disconnectPersonaPlex q)
      \<and> \<not> personaAudioContextRef (disconnectPersonaPlex q)
      \<and> \<not> playbackContext (disconnectPersonaPlex q)
      \<and> nextPlayTime (disconnectPersonaPlex q) = 0
      \<and> \<not> isPersonaPlexConnected (disconnectPersonaPlex q)
      \<and> \<not> isPersonaPlexConnecting (disconnectPersonaPlex q)
      \<and> disconnectPersonaPlex (disconnectPersonaPlex q) = disconnectPersonaPlex q
      \<and> disconnectPersonaPlex personaplex_init = personaplex_init)
   \<and> (sessionRef (disconnectLive l) = None
      \<and> \<not> liveMediaStreamRef (disconnectLive l)
      \<and> \<not> liveAudioContextRef (disconnectLive l)
      \<and> \<not> playbackContext (disconnectLive l)
      \<and> nextPlayTime (disconnectLive l) = 0
      \<and> \<not> isLiveConnected (disconnectLive l)
      \<and> \<not> isLiveConnecting (disconnectLive l)
      \<and> disconnectLive (disconnectLive l) = disconnectLive l
      \<and> disconnectLive live_init = live_init)
   \<and> (\<not> textRecognitionRef (stopTextTranslation x)
      \<and> \<not> isTextActive (stopTextTranslation x)
      \<and> \<not> isTextSpeaking (stopTextTranslation x)
      \<and> stopTextTranslation (stopTextTranslation x) = stopTextTranslation x
      \<and> stopTextTranslation text_init = text_init)
   \<and> ws_send CONNECTING = Inl InvalidStateError
   \<and> send_stop_and_close CONNECTING = CONNECTING"
  using stopLocalPipeline_released [of p] stopLocalPipeline_idem [of p] stopLocalPipeline_init
    disconnectPersonaPlex_released [of q] disconnectPersonaPlex_idem [of q]
    disconnectPersonaPlex_init
    disconnectLive_released [of l] disconnectLive_idem [of l] disconnectLive_init
    stopTextTranslation_released [of x] stopTextTranslation_idem [of x] stopTextTranslation_init
    send_stop_and_close_cases
  by blast

theorem teardown_idempotent_witness:
  "pipelineWsRef (stopLocalPipeline (startLocalPipeline LocalAsr pipeline_init)) = None
   \<and> stopLocalPipeline (stopLocalPipeline (startLocalPipeline LocalAsr pipeline_init))
       = stopLocalPipeline (startLocalPipeline LocalAsr pipeline_init)
   \<and> \<not> isPersonaPlexConnecting (disconnectPersonaPlex (connectPersonaPlex personaplex_init))
   \<and> \<not> isLiveConnecting (disconnectLive (connectLive False live_init))
   \<and> \<not> isTextActive (stopTextTranslation (startTextTranslation 0 True BrowserVoice text_init))"
  using teardown_idempotent [of "startLocalPipeline LocalAsr pipeline_init"
      "connectPersonaPlex personaplex_init" "connectLive False live_init"
      "startTextTranslation 0 True BrowserVoice text_init"]
  by blast

section \<open>Properties of the session orchestrator\<close>

text \<open>Every run of the mode effect tears the other modes down before it starts the selected
  one: right after it, no mode other than the selected one reports connected, and after the
  cleanup and the body together only the text mode, which starts synchronously, does.\<close>

lemma connected_modes_set:
  "set (connected_modes t) =
     {m. (m = Live \<and> isLiveConnected (liveHook t)) \<or> (m = Text \<and> isTextActive (textHook t))
         \<or> (m = LocalPipeline \<and> isLocalPipelineActive (pipelineHook t))
         \<or> (m = PersonaPlex \<and> isPersonaPlexConnected (personaHook t))}"
  by (auto simp add: connected_modes_def)

lemma disconnectAll_none: "connected_modes (disconnectAll d t) = []"
  using stopLocalPipeline_released disconnectPersonaPlex_released disconnectLive_released
    stopTextTranslation_released
  by (simp add: connected_modes_def disconnectAll_def)

lemma connectLive_connected:
  "isLiveConnected (connectLive quick st) \<longrightarrow> isLiveConnected st \<and> sessionRef st = None"
  by (simp add: connectLive_def disconnectLive_def Let_def split: option.splits)

lemma startLocalPipeline_active:
  "isLocalPipelineActive (startLocalPipeline m st)
     \<longrightarrow> isLocalPipelineActive st \<and> pipelineWsRef st = None"
  by (simp add: startLocalPipeline_def stopLocalPipeline_def Let_def split: option.splits)

lemma connectPersonaPlex_connected:
  "isPersonaPlexConnected (connectPersonaPlex st)
     \<longrightarrow> isPersonaPlexConnected st \<and> personaWsRef st = None"
  by (simp add: connectPersonaPlex_def disconnectPersonaPlex_def Let_def split: option.splits)

lemma mode_effect_exclusive:
  "set (connected_modes (mode_effect c d t))
     \<subseteq> (if showSubtitles t then {translationMode t} else {})"
proof (cases "showSubtitles t")
  case False
  then show ?thesis by (simp add: mode_effect_def disconnectAll_none)
next
  case True
  with stopLocalPipeline_released [of "pipelineHook t"]
    disconnectPersonaPlex_released [of "personaHook t"]
    disconnectLive_released [of "liveHook t"]
    stopTextTranslation_released [of "textHook t"]
  show ?thesis
    by (cases "translationMode t") (auto simp add: mode_effect_def connected_modes_set)
qed

lemma rerun_mode_effect_connected:
  "connected_modes (rerun_mode_effect c d t)
     = (if showSubtitles t \<and> translationMode t = Text then [Text] else [])"
proof -
  let ?u = "disconnectAll d t"
  have u: "connected_modes ?u = []" by (rule disconnectAll_none)
  then have flags: "\<not> isLiveConnected (liveHook ?u)" "\<not> isTextActive (textHook ?u)"
    "\<not> isLocalPipelineActive (pipelineHook ?u)" "\<not> isPersonaPlexConnected (personaHook ?u)"
    by (auto simp add: connected_modes_def split: if_splits)
  have sel: "showSubtitles ?u = showSubtitles t" "translationMode ?u = translationMode t"
    by (simp_all add: disconnectAll_def)
  show ?thesis
  proof (cases "showSubtitles t")
    case False
    with sel show ?thesis
      by (simp add: rerun_mode_effect_def mode_effect_def disconnectAll_none)
  next
    case True
    with sel flags connectLive_connected [of "quickResponse ?u" "liveHook ?u"]
      startLocalPipeline_active [of "pipelineAsrMode ?u" "pipelineHook ?u"]
      connectPersonaPlex_connected [of "personaHook ?u"]
      stopLocalPipeline_released [of "pipelineHook ?u"]
      disconnectPersonaPlex_released [of "personaHook ?u"]
      disconnectLive_released [of "liveHook ?u"]
      stopTextTranslation_released [of "textHook ?u"]
    show ?thesis
      by (cases "translationMode t")
        (auto simp add: rerun_mode_effect_def mode_effect_def connected_modes_def
          startTextTranslation_def)
  qed
qed

text \<open>
  C8. Every run of the mode effect tears all modes down and then starts the selected one, so
  right after it none of the modes whose hooks are modelled reports connected, except the
  text mode when it is the one started.
  But a teardown does not cancel a start that is still in progress, and there is a sequence
  of calls after which two modes report connected at once. Subtitles are switched on in
  local-pipeline mode and off again while the socket is still connecting: \<open>send\<close> throws
  in \<open>stop\<close>, \<open>close\<close> is skipped, and the socket stays. The mode is changed to text,
  subtitles are switched on, and the socket opens: its \<open>onopen\<close> handler sets
  \<open>isActive\<close> while the text mode is active. The buttons that the component disables
  cannot be clicked: the mode cannot be changed while subtitles are on, and subtitles cannot
  be switched while the live mode is connecting.
\<close>

theorem exclusivity_race:
  "map_option connected_modes
     (perform_all c d g
        [SelectMode LocalPipeline, ToggleSubtitles, ToggleSubtitles, SelectMode Text,
         ToggleSubtitles, PipelineSocketOpened 0]
        (teleprompter_init o_init))
     = Some [Text, LocalPipeline]
   \<and> map_option connected_modes
     (perform_all c d g
        [SelectMode LocalPipeline, ToggleSubtitles, ToggleSubtitles, SelectMode Text,
         ToggleSubtitles]
        (teleprompter_init o_init))
     = Some [Text]
   \<and> perform_all c d g [ToggleSubtitles, SelectMode Text] (teleprompter_init o_init) = None
   \<and> perform_all c d g [ToggleSubtitles, ToggleSubtitles] (teleprompter_init o_init) = None
   \<and> connected_modes (rerun_mode_effect c d t)
       = (if showSubtitles t \<and> translationMode t = Text then [Text] else [])"
proof -
  have "map_option connected_modes
     (perform_all c d g
        [SelectMode LocalPipeline, ToggleSubtitles, ToggleSubtitles, SelectMode Text,
         ToggleSubtitles, PipelineSocketOpened 0]
        (teleprompter_init o_init))
     = Some [Text, LocalPipeline]
   \<and> map_option connected_modes
     (perform_all c d g
        [SelectMode LocalPipeline, ToggleSubtitles, ToggleSubtitles, SelectMode Text,
         ToggleSubtitles]
        (teleprompter_init o_init))
     = Some [Text]
   \<and> perform_all c d g [ToggleSubtitles, SelectMode Text] (teleprompter_init o_init) = None
   \<and> perform_all c d g [ToggleSubtitles, ToggleSubtitles] (teleprompter_init o_init) = None"
    by (simp add: perform_def activeIsConnecting_def rerun_mode_effect_def mode_effect_def
        disconnectAll_def teleprompter_init_def connected_modes_def
        live_init_def text_init_def pipeline_init_def personaplex_init_def
        disconnectLive_def connectLive_def connectLive_granted_def live_onopen_def
        stopTextTranslation_def startTextTranslation_def started_def
        stopLocalPipeline_def startLocalPipeline_def pipeline_onopen_def
        disconnectPersonaPlex_def send_stop_and_close_def ws_send_def try_catch_def Let_def)
  with rerun_mode_effect_connected [of c d t] show ?thesis by (simp only: simp_thms)
qed

theorem exclusivity_race_witness:
  "map_option connected_modes
     (perform_all id id (\<lambda>u. False)
        [SelectMode LocalPipeline, ToggleSubtitles, ToggleSubtitles, SelectMode Text,
         ToggleSubtitles, PipelineSocketOpened 0]
        (teleprompter_init ()))
     = Some [Text, LocalPipeline]
   \<and> perform_all id id (\<lambda>u. False) [ToggleSubtitles, SelectMode Text] (teleprompter_init ())
       = None"
  using exclusivity_race [of id id "\<lambda>u. False" "()"] by blast

end
